theory Spec2Isabelle
  imports Main "HOL-Library.Word"
begin

unbundle bit_operations_syntax

section \<open>The nRF5x peripheral timer driver (cpu/nrf5x\_common/periph/timer.c)\<close>

text \<open>
  The driver multiplexes the TIMER peripherals of an nRF51/nRF52 into RIOT's
  \<open>periph/timer\<close> interface. The embedding follows the C file function by
  function. The board's descriptor table \<open>timer_config\<close> and the macro
  \<open>TIMER_NUMOF\<close> (its number of entries) are parameters; the software state
  \<open>ctx\<close>, the register blocks and the interrupt controller are an explicit
  state that every function takes and returns. What C leaves undefined (an
  array index out of bounds, a shift by a negative or too large amount, a call
  through a null function pointer) is a value of the result type, never a call
  that silently returns.
\<close>

subsection \<open>Machine types\<close>

type_synonym u8 = "8 word"
type_synonym u32 = "32 word"

text \<open>
  \<open>tim_t\<close> is an unsigned integer: a \<open>nat\<close>. The channel argument is a C
  \<open>int\<close>: an \<open>int\<close>, of which the 32-bit values are a part (no arithmetic is
  done on it but comparison and shifting by it). A callback pointer and its
  \<open>void *\<close> argument are 32-bit addresses; the address 0 is the null pointer.
  What C leaves undefined is one of three things in this file: an array index
  out of bounds, a shift by an amount out of range, a call through a null
  function pointer.
\<close>

type_synonym tim_t = nat
type_synonym timer_cb_t = u32
type_synonym void_ptr = u32

datatype ub = IndexOutOfBounds | ShiftOutOfRange | NullCall

subsection \<open>Board configuration\<close>

text \<open>
  Modelled from the spec: the type \<open>timer_conf_t\<close> of the Hardware Descriptor
  Table is declared in the CPU's header, which is not part of the file. The spec
  lists its fields (section 6): the register block handle, the channel count,
  the bit-width mode selector and the interrupt identity. The handle is the
  position of the entry (every instance has its own register block). The other
  three have the type they have in RIOT's header for this CPU family,
  \<open>uint8_t\<close>, so \<open>chan >= timer_config[tim].channels\<close> is a comparison of two
  \<open>int\<close>s after integer promotion.
\<close>

record timer_conf_t =
  channels :: u8
  bitmode :: u8
  irqn :: u8

record board =
  CPU_FAM_NRF51 :: bool
  timer_config :: "timer_conf_t list"

definition TIMER_NUMOF :: "board \<Rightarrow> nat" where
  "TIMER_NUMOF b = length (timer_config b)"

definition F_TIMER :: u32 where
  "F_TIMER = 16000000"

text \<open>
  Modelled from the spec: the flag bits of \<open>timer_set_periodic\<close> and the two
  vendor constants are macros of headers that are not part of the file. The
  spec names the three flags (section 4.2: reset on set, reset on match, leave
  stopped); the values are those of RIOT's \<open>periph/timer.h\<close> and of the nRF
  register description (the interrupt-enable bit of compare channel 0 is bit 16,
  timer mode is mode 0).
\<close>

definition TIM_FLAG_RESET_ON_SET :: u8 where
  "TIM_FLAG_RESET_ON_SET = 1"

definition TIM_FLAG_RESET_ON_MATCH :: u8 where
  "TIM_FLAG_RESET_ON_MATCH = 2"

definition TIM_FLAG_SET_STOPPED :: u8 where
  "TIM_FLAG_SET_STOPPED = 4"

definition TIMER_INTENSET_COMPARE0_Pos :: nat where
  "TIMER_INTENSET_COMPARE0_Pos = 16"

definition TIMER_INTENSET_COMPARE0_Msk :: u32 where
  "TIMER_INTENSET_COMPARE0_Msk = push_bit TIMER_INTENSET_COMPARE0_Pos 1"

definition TIMER_MODE_MODE_Timer :: u32 where
  "TIMER_MODE_MODE_Timer = 0"

subsection \<open>The register block\<close>

text \<open>
  Modelled from the spec: \<open>NRF_TIMER_Type\<close> is the vendor's register block.
  The registers the driver touches are named by \<open>reg\<close>; \<open>timer_hw\<close> is the
  state of one peripheral behind them, and \<open>hw_write\<close> is what a store to a
  register does to it, in the spec's words: the start task resumes counting, the
  stop and shutdown tasks halt it, the clear task zeroes the counter, a capture
  task copies the counter into the compare register of its channel, a store to
  \<open>INTENSET\<close> enables and a store to \<open>INTENCLR\<close> disables the interrupt
  sources of the bits set in the value, and every other register keeps what was
  stored. The compare, event and capture arrays have as many entries as the
  peripheral has compare registers; an index outside them is out of bounds.
\<close>

datatype reg =
    POWER | TASKS_START | TASKS_STOP | TASKS_CLEAR | TASKS_SHUTDOWN
  | TASKS_CAPTURE int | EVENTS_COMPARE int | SHORTS | INTENSET | INTENCLR
  | MODE | BITMODE | PRESCALER | CC int

record timer_hw =
  hw_running :: bool
  hw_counter :: u32
  hw_POWER :: u32
  hw_EVENTS_COMPARE :: "u32 list"
  hw_SHORTS :: u32
  hw_INTEN :: u32
  hw_MODE :: u32
  hw_BITMODE :: u32
  hw_PRESCALER :: u32
  hw_CC :: "u32 list"

definition in_bounds :: "int \<Rightarrow> 'a list \<Rightarrow> bool" where
  "in_bounds i xs \<longleftrightarrow> 0 \<le> i \<and> i < int (length xs)"

fun hw_write :: "reg \<Rightarrow> u32 \<Rightarrow> timer_hw \<Rightarrow> ub + timer_hw" where
  "hw_write POWER v h = Inr (h\<lparr>hw_POWER := v\<rparr>)"
| "hw_write TASKS_START v h = Inr (if v = 1 then h\<lparr>hw_running := True\<rparr> else h)"
| "hw_write TASKS_STOP v h = Inr (if v = 1 then h\<lparr>hw_running := False\<rparr> else h)"
| "hw_write TASKS_CLEAR v h = Inr (if v = 1 then h\<lparr>hw_counter := 0\<rparr> else h)"
| "hw_write TASKS_SHUTDOWN v h = Inr (if v = 1 then h\<lparr>hw_running := False\<rparr> else h)"
| "hw_write (TASKS_CAPTURE n) v h =
     (if in_bounds n (hw_CC h)
      then Inr (if v = 1 then h\<lparr>hw_CC := (hw_CC h)[nat n := hw_counter h]\<rparr> else h)
      else Inl IndexOutOfBounds)"
| "hw_write (EVENTS_COMPARE n) v h =
     (if in_bounds n (hw_EVENTS_COMPARE h)
      then Inr (h\<lparr>hw_EVENTS_COMPARE := (hw_EVENTS_COMPARE h)[nat n := v]\<rparr>)
      else Inl IndexOutOfBounds)"
| "hw_write SHORTS v h = Inr (h\<lparr>hw_SHORTS := v\<rparr>)"
| "hw_write INTENSET v h = Inr (h\<lparr>hw_INTEN := hw_INTEN h OR v\<rparr>)"
| "hw_write INTENCLR v h = Inr (h\<lparr>hw_INTEN := hw_INTEN h AND NOT v\<rparr>)"
| "hw_write MODE v h = Inr (h\<lparr>hw_MODE := v\<rparr>)"
| "hw_write BITMODE v h = Inr (h\<lparr>hw_BITMODE := v\<rparr>)"
| "hw_write PRESCALER v h = Inr (h\<lparr>hw_PRESCALER := v\<rparr>)"
| "hw_write (CC n) v h =
     (if in_bounds n (hw_CC h)
      then Inr (h\<lparr>hw_CC := (hw_CC h)[nat n := v]\<rparr>)
      else Inl IndexOutOfBounds)"

subsection \<open>The state\<close>

text \<open>
  \<open>tim_ctx_t\<close> is the struct of the file; \<open>ctx\<close> is the static array
  \<open>ctx[TIMER_NUMOF]\<close>: bit \<open>i\<close> of \<open>flags\<close> is the armed bit of channel \<open>i\<close>, bit
  \<open>i\<close> of \<open>is_periodic\<close> its periodic bit. \<open>periph\<close> holds the register block of
  every instance, \<open>nvic\<close> the interrupt lines enabled in the interrupt
  controller. \<open>trace\<close> lists, in program order, what the driver did to the
  outside: every store to a peripheral register, every call of the callback
  (client code, which is not part of the driver: the call is recorded with its
  two arguments) and every call of the interrupt epilogue.
\<close>

record tim_ctx_t =
  cb :: timer_cb_t
  arg :: void_ptr
  flags :: u8
  is_periodic :: u8

datatype event =
    Write tim_t reg u32
  | Callback timer_cb_t void_ptr int
  | IsrEnd

record sys =
  ctx :: "tim_ctx_t list"
  periph :: "timer_hw list"
  nvic :: "u8 set"
  trace :: "event list"

type_synonym stmt = "sys \<Rightarrow> ub + sys"

text \<open>A sequence of statements: the first undefined one ends the run.\<close>

fun exec :: "stmt list \<Rightarrow> stmt" where
  "exec [] s = Inr s"
| "exec (f # fs) s = (case f s of Inl e \<Rightarrow> Inl e | Inr s' \<Rightarrow> exec fs s')"

definition if_then :: "bool \<Rightarrow> stmt \<Rightarrow> stmt" where
  "if_then c f s = (if c then f s else Inr s)"

text \<open>\<open>dev(tim)->r = v\<close>: the handle is read from \<open>timer_config[tim]\<close>.\<close>

definition reg_write :: "board \<Rightarrow> tim_t \<Rightarrow> reg \<Rightarrow> u32 \<Rightarrow> stmt" where
  "reg_write b tim r v s =
     (if tim < TIMER_NUMOF b \<and> tim < length (periph s) then
        (case hw_write r v (periph s ! tim) of
           Inl e \<Rightarrow> Inl e
         | Inr h \<Rightarrow> Inr (s\<lparr>periph := (periph s)[tim := h],
                          trace := trace s @ [Write tim r v]\<rparr>))
      else Inl IndexOutOfBounds)"

text \<open>
  \<open>1 << n\<close> is a shift of the \<open>int\<close> 1: defined when \<open>0 \<le> n\<close> and the result is
  an \<open>int\<close>, that is for \<open>n < 31\<close>. \<open>TIMER_INTENSET_COMPARE0_Msk << n\<close> is a shift
  of a 32-bit \<open>unsigned long\<close>: defined for \<open>0 \<le> n < 32\<close>. Both results are
  given as 32-bit patterns.
\<close>

definition shl_int1 :: "int \<Rightarrow> u32 option" where
  "shl_int1 n = (if 0 \<le> n \<and> n < 31 then Some (push_bit (nat n) 1) else None)"

definition shl_ulong :: "u32 \<Rightarrow> int \<Rightarrow> u32 option" where
  "shl_ulong m n = (if 0 \<le> n \<and> n < 32 then Some (push_bit (nat n) m) else None)"

text \<open>
  \<open>ctx[tim].flags |= (1 << chan)\<close> and its three relatives: the \<open>uint8_t\<close> is
  promoted, combined with the shifted \<open>int\<close> and cut back to eight bits.
\<close>

definition set_bit8 :: "u8 \<Rightarrow> u32 \<Rightarrow> u8" where
  "set_bit8 x m = ucast ((ucast x :: u32) OR m)"

definition clear_bit8 :: "u8 \<Rightarrow> u32 \<Rightarrow> u8" where
  "clear_bit8 x m = ucast ((ucast x :: u32) AND NOT m)"

definition test_bit8 :: "u8 \<Rightarrow> u32 \<Rightarrow> bool" where
  "test_bit8 x m \<longleftrightarrow> (ucast x :: u32) AND m \<noteq> 0"

definition ctx_modify :: "tim_t \<Rightarrow> (tim_ctx_t \<Rightarrow> tim_ctx_t) \<Rightarrow> stmt" where
  "ctx_modify tim f s =
     (if tim < length (ctx s) then Inr (s\<lparr>ctx := (ctx s)[tim := f (ctx s ! tim)]\<rparr>)
      else Inl IndexOutOfBounds)"

definition flags_set :: "tim_t \<Rightarrow> int \<Rightarrow> stmt" where
  "flags_set tim chan s =
     (case shl_int1 chan of
        None \<Rightarrow> Inl ShiftOutOfRange
      | Some m \<Rightarrow> ctx_modify tim (\<lambda>c. c\<lparr>flags := set_bit8 (flags c) m\<rparr>) s)"

definition flags_clear :: "tim_t \<Rightarrow> int \<Rightarrow> stmt" where
  "flags_clear tim chan s =
     (case shl_int1 chan of
        None \<Rightarrow> Inl ShiftOutOfRange
      | Some m \<Rightarrow> ctx_modify tim (\<lambda>c. c\<lparr>flags := clear_bit8 (flags c) m\<rparr>) s)"

definition is_periodic_set :: "tim_t \<Rightarrow> int \<Rightarrow> stmt" where
  "is_periodic_set tim chan s =
     (case shl_int1 chan of
        None \<Rightarrow> Inl ShiftOutOfRange
      | Some m \<Rightarrow> ctx_modify tim (\<lambda>c. c\<lparr>is_periodic := set_bit8 (is_periodic c) m\<rparr>) s)"

definition is_periodic_clear :: "tim_t \<Rightarrow> int \<Rightarrow> stmt" where
  "is_periodic_clear tim chan s =
     (case shl_int1 chan of
        None \<Rightarrow> Inl ShiftOutOfRange
      | Some m \<Rightarrow> ctx_modify tim (\<lambda>c. c\<lparr>is_periodic := clear_bit8 (is_periodic c) m\<rparr>) s)"

text \<open>\<open>dev(tim)->INTENSET = (TIMER_INTENSET_COMPARE0_Msk << chan)\<close>, and \<open>INTENCLR\<close>.\<close>

definition inten_write :: "board \<Rightarrow> tim_t \<Rightarrow> reg \<Rightarrow> int \<Rightarrow> stmt" where
  "inten_write b tim r chan s =
     (case shl_ulong TIMER_INTENSET_COMPARE0_Msk chan of
        None \<Rightarrow> Inl ShiftOutOfRange
      | Some m \<Rightarrow> reg_write b tim r m s)"

text \<open>\<open>dev(tim)->SHORTS |= (1 << chan)\<close> and \<open>dev(tim)->SHORTS &= ~(1 << chan)\<close>.\<close>

definition shorts_set :: "board \<Rightarrow> tim_t \<Rightarrow> int \<Rightarrow> stmt" where
  "shorts_set b tim chan s =
     (case shl_int1 chan of
        None \<Rightarrow> Inl ShiftOutOfRange
      | Some m \<Rightarrow>
          if tim < TIMER_NUMOF b \<and> tim < length (periph s)
          then reg_write b tim SHORTS (hw_SHORTS (periph s ! tim) OR m) s
          else Inl IndexOutOfBounds)"

definition shorts_clear :: "board \<Rightarrow> tim_t \<Rightarrow> int \<Rightarrow> stmt" where
  "shorts_clear b tim chan s =
     (case shl_int1 chan of
        None \<Rightarrow> Inl ShiftOutOfRange
      | Some m \<Rightarrow>
          if tim < TIMER_NUMOF b \<and> tim < length (periph s)
          then reg_write b tim SHORTS (hw_SHORTS (periph s ! tim) AND NOT m) s
          else Inl IndexOutOfBounds)"

text \<open>\<open>NVIC_EnableIRQ(timer_config[tim].irqn)\<close> and \<open>cortexm_isr_end()\<close>.\<close>

definition NVIC_EnableIRQ :: "board \<Rightarrow> tim_t \<Rightarrow> stmt" where
  "NVIC_EnableIRQ b tim s =
     (if tim < TIMER_NUMOF b
      then Inr (s\<lparr>nvic := insert (irqn (timer_config b ! tim)) (nvic s)\<rparr>)
      else Inl IndexOutOfBounds)"

definition cortexm_isr_end :: stmt where
  "cortexm_isr_end s = Inr (s\<lparr>trace := trace s @ [IsrEnd]\<rparr>)"

subsection \<open>The Control API\<close>

text \<open>
  The search for the prescaler in \<open>timer_init\<close>: the loop over \<open>i = 0, ..., 9\<close>
  with \<open>cando\<close> halved at every round; at the first \<open>freq == cando\<close> it
  stores \<open>i\<close> in \<open>PRESCALER\<close> and breaks (\<open>prescaler_write\<close>). The result
  carries the value of \<open>i\<close> after the loop.
\<close>

definition prescaler_write :: "board \<Rightarrow> tim_t \<Rightarrow> nat \<Rightarrow> sys \<Rightarrow> ub + (nat \<times> sys)" where
  "prescaler_write b tim i s =
     (case reg_write b tim PRESCALER (of_nat i) s of
        Inl e \<Rightarrow> Inl e
      | Inr s' \<Rightarrow> Inr (i, s'))"

function freq_loop :: "board \<Rightarrow> tim_t \<Rightarrow> u32 \<Rightarrow> nat \<Rightarrow> u32 \<Rightarrow> sys \<Rightarrow> ub + (nat \<times> sys)" where
  "freq_loop b tim freq i cando s =
     (if i < 10 then
        (if freq = cando then prescaler_write b tim i s
         else freq_loop b tim freq (i + 1) (cando div 2) s)
      else Inr (i, s))"
  by pat_completeness auto
termination
  by (relation "measure (\<lambda>(b, tim, freq, i, cando, s). 10 - i)") auto

declare freq_loop.simps [simp del]

definition timer_init ::
  "board \<Rightarrow> tim_t \<Rightarrow> u32 \<Rightarrow> timer_cb_t \<Rightarrow> void_ptr \<Rightarrow> sys \<Rightarrow> ub + (int \<times> sys)" where
  "timer_init b tim freq cb' arg' s =
     (if tim \<ge> TIMER_NUMOF b then Inr (- 1, s)
      else
        case exec
          [ctx_modify tim (\<lambda>c. c\<lparr>cb := cb'\<rparr>),
           ctx_modify tim (\<lambda>c. c\<lparr>arg := arg'\<rparr>),
           if_then (CPU_FAM_NRF51 b) (reg_write b tim POWER 1),
           reg_write b tim TASKS_STOP 1,
           reg_write b tim BITMODE (ucast (bitmode (timer_config b ! tim))),
           reg_write b tim MODE TIMER_MODE_MODE_Timer,
           reg_write b tim TASKS_CLEAR 1] s
        of Inl e \<Rightarrow> Inl e
         | Inr s1 \<Rightarrow>
             (case freq_loop b tim freq 0 F_TIMER s1 of
                Inl e \<Rightarrow> Inl e
              | Inr (i, s2) \<Rightarrow>
                  if i = 10 then Inr (- 1, s2)
                  else
                    case exec
                      [reg_write b tim (EVENTS_COMPARE 0) 0,
                       reg_write b tim (EVENTS_COMPARE 1) 0,
                       reg_write b tim (EVENTS_COMPARE 2) 0,
                       NVIC_EnableIRQ b tim,
                       reg_write b tim TASKS_START 1] s2
                    of Inl e \<Rightarrow> Inl e
                     | Inr s3 \<Rightarrow> Inr (0, s3)))"

text \<open>
  The three arming and disarming functions read \<open>timer_config[tim].channels\<close>
  first, with no check of \<open>tim\<close>. The read-back \<open>(void)dev(tim)->EVENTS_COMPARE[chan]\<close>
  after the event is cleared changes nothing and follows a store to the same
  register, which has already checked the index.
\<close>

definition timer_set_absolute ::
  "board \<Rightarrow> tim_t \<Rightarrow> int \<Rightarrow> u32 \<Rightarrow> sys \<Rightarrow> ub + (int \<times> sys)" where
  "timer_set_absolute b tim chan val s =
     (if \<not> tim < TIMER_NUMOF b then Inl IndexOutOfBounds
      else if chan \<ge> uint (channels (timer_config b ! tim)) then Inr (- 1, s)
      else
        case exec
          [flags_set tim chan,
           reg_write b tim (CC chan) val,
           reg_write b tim (EVENTS_COMPARE chan) 0,
           inten_write b tim INTENSET chan] s
        of Inl e \<Rightarrow> Inl e
         | Inr s' \<Rightarrow> Inr (0, s'))"

definition timer_set_periodic ::
  "board \<Rightarrow> tim_t \<Rightarrow> int \<Rightarrow> u32 \<Rightarrow> u8 \<Rightarrow> sys \<Rightarrow> ub + (int \<times> sys)" where
  "timer_set_periodic b tim chan val fl s =
     (if \<not> tim < TIMER_NUMOF b then Inl IndexOutOfBounds
      else if chan \<ge> uint (channels (timer_config b ! tim)) then Inr (- 1, s)
      else
        case exec
          [reg_write b tim TASKS_STOP 1,
           flags_set tim chan,
           is_periodic_set tim chan,
           reg_write b tim (CC chan) val,
           if_then (fl AND TIM_FLAG_RESET_ON_MATCH \<noteq> 0) (shorts_set b tim chan),
           if_then (fl AND TIM_FLAG_RESET_ON_SET \<noteq> 0) (reg_write b tim TASKS_CLEAR 1),
           reg_write b tim (EVENTS_COMPARE chan) 0,
           inten_write b tim INTENSET chan,
           if_then (\<not> (fl AND TIM_FLAG_SET_STOPPED \<noteq> 0)) (reg_write b tim TASKS_START 1)] s
        of Inl e \<Rightarrow> Inl e
         | Inr s' \<Rightarrow> Inr (0, s'))"

definition timer_clear :: "board \<Rightarrow> tim_t \<Rightarrow> int \<Rightarrow> sys \<Rightarrow> ub + (int \<times> sys)" where
  "timer_clear b tim chan s =
     (if \<not> tim < TIMER_NUMOF b then Inl IndexOutOfBounds
      else if chan \<ge> uint (channels (timer_config b ! tim)) then Inr (- 1, s)
      else
        case exec
          [inten_write b tim INTENCLR chan,
           shorts_clear b tim chan,
           flags_clear tim chan,
           is_periodic_clear tim chan] s
        of Inl e \<Rightarrow> Inl e
         | Inr s' \<Rightarrow> Inr (0, s'))"

text \<open>
  \<open>timer_read\<close> captures on the channel after the last usable one,
  \<open>timer_config[tim].channels\<close>, and returns its compare register.
  \<open>timer_start\<close> and \<open>timer_stop\<close> return nothing; \<open>timer_stop\<close> triggers the
  shutdown task.
\<close>

definition timer_read :: "board \<Rightarrow> tim_t \<Rightarrow> sys \<Rightarrow> ub + (u32 \<times> sys)" where
  "timer_read b tim s =
     (if \<not> tim < TIMER_NUMOF b then Inl IndexOutOfBounds
      else
        case reg_write b tim (TASKS_CAPTURE (uint (channels (timer_config b ! tim)))) 1 s of
          Inl e \<Rightarrow> Inl e
        | Inr s' \<Rightarrow>
            Inr (hw_CC (periph s' ! tim) ! unat (channels (timer_config b ! tim)), s'))"

definition timer_start :: "board \<Rightarrow> tim_t \<Rightarrow> stmt" where
  "timer_start b tim s = reg_write b tim TASKS_START 1 s"

definition timer_stop :: "board \<Rightarrow> tim_t \<Rightarrow> stmt" where
  "timer_stop b tim s = reg_write b tim TASKS_SHUTDOWN 1 s"

subsection \<open>The Interrupt Dispatcher\<close>

text \<open>
  \<open>ctx[num].cb(ctx[num].arg, i)\<close>: a call through the stored pointer. Through
  the null pointer (the binding of the zero-initialized \<open>ctx\<close>, or a null
  callback given to \<open>timer_init\<close>) the call is undefined; otherwise it is
  recorded.
\<close>

definition call_cb :: "tim_t \<Rightarrow> int \<Rightarrow> stmt" where
  "call_cb num i s =
     (if \<not> num < length (ctx s) then Inl IndexOutOfBounds
      else if cb (ctx s ! num) = 0 then Inl NullCall
      else Inr (s\<lparr>trace := trace s @ [Callback (cb (ctx s ! num)) (arg (ctx s ! num)) i]\<rparr>))"

text \<open>The body of the loop of \<open>irq_handler\<close> for channel \<open>i\<close>.\<close>

definition irq_channel :: "board \<Rightarrow> tim_t \<Rightarrow> int \<Rightarrow> stmt" where
  "irq_channel b num i s =
     (if \<not> (num < TIMER_NUMOF b \<and> num < length (periph s)) then Inl IndexOutOfBounds
      else if \<not> in_bounds i (hw_EVENTS_COMPARE (periph s ! num)) then Inl IndexOutOfBounds
      else if hw_EVENTS_COMPARE (periph s ! num) ! nat i = 1 then
        exec
          [reg_write b num (EVENTS_COMPARE i) 0,
           (\<lambda>s. case shl_int1 i of
                  None \<Rightarrow> Inl ShiftOutOfRange
                | Some m \<Rightarrow>
                    if \<not> num < length (ctx s) then Inl IndexOutOfBounds
                    else if test_bit8 (flags (ctx s ! num)) m then
                      exec
                        [(\<lambda>s. if \<not> test_bit8 (is_periodic (ctx s ! num)) m
                              then exec [flags_clear num i, inten_write b num INTENCLR i] s
                              else Inr s),
                         call_cb num i] s
                    else Inr s)] s
      else Inr s)"

text \<open>
  \<open>irq_handler(num)\<close>: the channels \<open>0, ..., channels - 1\<close> in increasing
  order, then the interrupt epilogue. The functions \<open>TIMER_n_ISR\<close> call it with
  \<open>num = n\<close>.
\<close>

definition irq_handler :: "board \<Rightarrow> tim_t \<Rightarrow> stmt" where
  "irq_handler b num s =
     (if \<not> num < TIMER_NUMOF b then Inl IndexOutOfBounds
      else
        exec (map (\<lambda>i. irq_channel b num (int i))
                  [0 ..< unat (channels (timer_config b ! num))]
              @ [cortexm_isr_end]) s)"

subsection \<open>Reading the state\<close>

text \<open>
  The words of the data model. Channel \<open>chan\<close> of instance \<open>tim\<close> is armed when
  bit \<open>chan\<close> of \<open>ctx[tim].flags\<close> is set and periodic when bit \<open>chan\<close> of
  \<open>ctx[tim].is_periodic\<close> is set; its interrupt source is enabled when bit
  \<open>16 + chan\<close> of the interrupt-enable mask is set; its reset-on-match short is
  bit \<open>chan\<close> of \<open>SHORTS\<close>; its compare event is pending when
  \<open>EVENTS_COMPARE[chan]\<close> reads 1.
\<close>

definition armed :: "tim_t \<Rightarrow> int \<Rightarrow> sys \<Rightarrow> bool" where
  "armed tim chan s \<longleftrightarrow> 0 \<le> chan \<and> bit (flags (ctx s ! tim)) (nat chan)"

definition periodic :: "tim_t \<Rightarrow> int \<Rightarrow> sys \<Rightarrow> bool" where
  "periodic tim chan s \<longleftrightarrow> 0 \<le> chan \<and> bit (is_periodic (ctx s ! tim)) (nat chan)"

definition irq_enabled :: "tim_t \<Rightarrow> int \<Rightarrow> sys \<Rightarrow> bool" where
  "irq_enabled tim chan s \<longleftrightarrow>
     0 \<le> chan \<and> bit (hw_INTEN (periph s ! tim)) (TIMER_INTENSET_COMPARE0_Pos + nat chan)"

definition short_enabled :: "tim_t \<Rightarrow> int \<Rightarrow> sys \<Rightarrow> bool" where
  "short_enabled tim chan s \<longleftrightarrow> 0 \<le> chan \<and> bit (hw_SHORTS (periph s ! tim)) (nat chan)"

definition event_pending :: "tim_t \<Rightarrow> int \<Rightarrow> sys \<Rightarrow> bool" where
  "event_pending tim chan s \<longleftrightarrow>
     in_bounds chan (hw_EVENTS_COMPARE (periph s ! tim))
     \<and> hw_EVENTS_COMPARE (periph s ! tim) ! nat chan = 1"

definition timer_running :: "tim_t \<Rightarrow> sys \<Rightarrow> bool" where
  "timer_running tim s \<longleftrightarrow> hw_running (periph s ! tim)"

text \<open>A valid instance, and a valid channel of it.\<close>

definition valid_tim :: "board \<Rightarrow> tim_t \<Rightarrow> bool" where
  "valid_tim b tim \<longleftrightarrow> tim < TIMER_NUMOF b"

definition valid_chan :: "board \<Rightarrow> tim_t \<Rightarrow> int \<Rightarrow> bool" where
  "valid_chan b tim chan \<longleftrightarrow>
     tim < TIMER_NUMOF b \<and> 0 \<le> chan \<and> chan < uint (channels (timer_config b ! tim))"

text \<open>
  A state that fits the board: \<open>ctx\<close> has \<open>TIMER_NUMOF\<close> entries and every
  instance has its register block. A board is well configured for the driver
  when every instance has a compare register left after its channels (the one
  \<open>timer_read\<close> captures on), at least the three event registers that
  \<open>timer_init\<close> clears, and no more channels than the eight bits of \<open>flags\<close>
  and \<open>is_periodic\<close>.
\<close>

definition wf_sys :: "board \<Rightarrow> sys \<Rightarrow> bool" where
  "wf_sys b s \<longleftrightarrow>
     length (ctx s) = TIMER_NUMOF b \<and> length (periph s) = TIMER_NUMOF b \<and>
     (\<forall>tim < TIMER_NUMOF b.
        length (hw_EVENTS_COMPARE (periph s ! tim)) = length (hw_CC (periph s ! tim)) \<and>
        unat (channels (timer_config b ! tim)) < length (hw_CC (periph s ! tim)) \<and>
        3 \<le> length (hw_CC (periph s ! tim)) \<and>
        unat (channels (timer_config b ! tim)) \<le> 8)"

text \<open>The invariant of the data model: a periodic bit is set only with its armed bit.\<close>

definition ctx_inv :: "sys \<Rightarrow> bool" where
  "ctx_inv s \<longleftrightarrow>
     (\<forall>tim < length (ctx s). \<forall>i < 8. periodic tim (int i) s \<longrightarrow> armed tim (int i) s)"

text \<open>
  The state at process start: \<open>ctx\<close> is a zero-initialized static array. The
  peripherals are in their reset state, here with \<open>n\<close> compare registers each.
\<close>

definition hw_reset :: "nat \<Rightarrow> timer_hw" where
  "hw_reset n =
     \<lparr>hw_running = False, hw_counter = 0, hw_POWER = 0,
      hw_EVENTS_COMPARE = replicate n 0, hw_SHORTS = 0, hw_INTEN = 0,
      hw_MODE = 0, hw_BITMODE = 0, hw_PRESCALER = 0, hw_CC = replicate n 0\<rparr>"

definition sys_init :: "board \<Rightarrow> nat \<Rightarrow> sys" where
  "sys_init b n =
     \<lparr>ctx = replicate (TIMER_NUMOF b) \<lparr>cb = 0, arg = 0, flags = 0, is_periodic = 0\<rparr>,
      periph = replicate (TIMER_NUMOF b) (hw_reset n),
      nvic = {}, trace = []\<rparr>"

text \<open>
  Modelled from the spec: the hardware latches the pending-event flag of a
  channel when the counter reaches its compare value (glossary, pending-event
  flag). This is the peripheral's step, not the driver's: it leaves no entry in
  the trace.
\<close>

definition hw_compare_match :: "tim_t \<Rightarrow> int \<Rightarrow> sys \<Rightarrow> sys" where
  "hw_compare_match tim chan s =
     s\<lparr>periph := (periph s)[tim := (periph s ! tim)
        \<lparr>hw_EVENTS_COMPARE := (hw_EVENTS_COMPARE (periph s ! tim))[nat chan := 1]\<rparr>]\<rparr>"

text \<open>
  One call after another, on the state the first one left; and a call that
  returns the value \<open>r\<close> and a state of which \<open>P\<close> holds.
\<close>

definition and_then :: "ub + ('r \<times> sys) \<Rightarrow> (sys \<Rightarrow> ub + 'q) \<Rightarrow> ub + 'q" where
  "and_then m f = (case m of Inl e \<Rightarrow> Inl e | Inr (r, s) \<Rightarrow> f s)"

definition returns :: "'r \<Rightarrow> (sys \<Rightarrow> bool) \<Rightarrow> ub + ('r \<times> sys) \<Rightarrow> bool" where
  "returns r P m = (case m of Inl e \<Rightarrow> False | Inr (r', s) \<Rightarrow> r' = r \<and> P s)"

text \<open>The same for a function that returns no value, such as \<open>irq_handler\<close>.\<close>

definition ends :: "(sys \<Rightarrow> bool) \<Rightarrow> ub + sys \<Rightarrow> bool" where
  "ends P m = (case m of Inl e \<Rightarrow> False | Inr s \<Rightarrow> P s)"

text \<open>What a run added to the trace, and the calls of the callback for one channel in it.\<close>

definition emitted :: "sys \<Rightarrow> sys \<Rightarrow> event list" where
  "emitted s s' = drop (length (trace s)) (trace s')"

fun is_callback_for :: "int \<Rightarrow> event \<Rightarrow> bool" where
  "is_callback_for i (Callback f a j) = (j = i)"
| "is_callback_for i _ = False"

text \<open>
  A channel is idle when it is not armed (data model). \<open>callbacks_for i cs s\<close>:
  the calls of the callback for channel \<open>i\<close> in the whole trace of \<open>s\<close> are
  \<open>cs\<close>. \<open>trace_ends_with es s\<close>: the last events of the trace of \<open>s\<close> are
  \<open>es\<close>.
\<close>

definition idle :: "tim_t \<Rightarrow> int \<Rightarrow> sys \<Rightarrow> bool" where
  "idle tim chan s \<longleftrightarrow> \<not> armed tim chan s"

definition callbacks_for :: "int \<Rightarrow> event list \<Rightarrow> sys \<Rightarrow> bool" where
  "callbacks_for i cs s \<longleftrightarrow> filter (is_callback_for i) (trace s) = cs"

definition trace_ends_with :: "event list \<Rightarrow> sys \<Rightarrow> bool" where
  "trace_ends_with es s \<longleftrightarrow> drop (length (trace s) - length es) (trace s) = es"

text \<open>
  A board for examples: an nRF52 with two timer instances of three channels
  each, on peripherals with four compare registers.
\<close>

definition demo_board :: board where
  "demo_board =
     \<lparr>CPU_FAM_NRF51 = False,
      timer_config = [\<lparr>channels = 3, bitmode = 3, irqn = 8\<rparr>,
                      \<lparr>channels = 3, bitmode = 0, irqn = 9\<rparr>]\<rparr>"

definition demo_sys :: sys where
  "demo_sys = sys_init demo_board 4"

text \<open>
  A second example state, with an empty trace: the callback binding of
  instance 0 is \<open>(7, 9)\<close>, its channel 1 is armed one-shot with compare value 5
  and interrupt source enabled, and the compare event of that channel is
  pending.
\<close>

definition demo_oneshot :: sys where
  "demo_oneshot =
     \<lparr>ctx = [\<lparr>cb = 7, arg = 9, flags = 2, is_periodic = 0\<rparr>,
             \<lparr>cb = 0, arg = 0, flags = 0, is_periodic = 0\<rparr>],
      periph = [(hw_reset 4)\<lparr>hw_running := True, hw_EVENTS_COMPARE := [0, 1, 0, 0],
                  hw_INTEN := 0x20000, hw_PRESCALER := 4, hw_CC := [0, 5, 0, 0]\<rparr>,
                hw_reset 4],
      nvic = {8}, trace = []\<rparr>"

text \<open>
  Two runs on the example board, from the state at process start. In both,
  \<open>timer_init(0, 1000000, 7, 9)\<close> binds the callback 7 with argument 9. In
  \<open>demo_arm\<close> channel 0 is then armed with \<open>timer_set_absolute(0, 0, 5)\<close>; in
  \<open>demo_rearm\<close> the same call follows \<open>timer_set_periodic(0, 0, 100, 0)\<close>.
  \<open>match_and_dispatch\<close> is one compare match on channel 0 of instance 0
  followed by the interrupt handler of the instance.
\<close>

definition demo_arm :: "ub + (int \<times> sys)" where
  "demo_arm =
     and_then (timer_init demo_board 0 1000000 7 9 demo_sys)
       (timer_set_absolute demo_board 0 0 5)"

definition demo_rearm :: "ub + (int \<times> sys)" where
  "demo_rearm =
     and_then
       (and_then (timer_init demo_board 0 1000000 7 9 demo_sys)
          (timer_set_periodic demo_board 0 0 100 0))
       (timer_set_absolute demo_board 0 0 5)"

definition match_and_dispatch :: stmt where
  "match_and_dispatch = irq_handler demo_board 0 \<circ> hw_compare_match 0 0"

text \<open>
  What a run of the dispatcher, or of a part of it, leaves alone for channel
  \<open>i\<close>: the channel's bits and pending event, the callback binding, and the
  trace but for entries that are no calls of the callback for \<open>i\<close>.
\<close>

definition chan_frame :: "tim_t \<Rightarrow> int \<Rightarrow> sys \<Rightarrow> sys \<Rightarrow> bool" where
  "chan_frame num i s s' \<longleftrightarrow>
     armed num i s' = armed num i s \<and> periodic num i s' = periodic num i s \<and>
     irq_enabled num i s' = irq_enabled num i s \<and>
     event_pending num i s' = event_pending num i s \<and>
     cb (ctx s' ! num) = cb (ctx s ! num) \<and> arg (ctx s' ! num) = arg (ctx s ! num) \<and>
     (\<exists>new. trace s' = trace s @ new \<and> filter (is_callback_for i) new = [])"

section \<open>Properties\<close>

subsection \<open>Well-formed states and the example board\<close>

lemma wf_sysD:
  assumes "wf_sys b s" "tim < TIMER_NUMOF b"
  shows "tim < length (ctx s)" "tim < length (periph s)"
    "length (hw_EVENTS_COMPARE (periph s ! tim)) = length (hw_CC (periph s ! tim))"
    "unat (channels (timer_config b ! tim)) < length (hw_CC (periph s ! tim))"
    "3 \<le> length (hw_CC (periph s ! tim))"
    "unat (channels (timer_config b ! tim)) \<le> 8"
  using assms by (auto simp: wf_sys_def)

lemma wf_sys_cong:
  assumes "wf_sys b s" "length (ctx s') = length (ctx s)" "length (periph s') = length (periph s)"
    "\<And>t. t < TIMER_NUMOF b \<Longrightarrow> length (hw_CC (periph s' ! t)) = length (hw_CC (periph s ! t))"
    "\<And>t. t < TIMER_NUMOF b \<Longrightarrow>
       length (hw_EVENTS_COMPARE (periph s' ! t)) = length (hw_EVENTS_COMPARE (periph s ! t))"
  shows "wf_sys b s'"
  using assms by (simp add: wf_sys_def)

lemma demo_simps:
  "TIMER_NUMOF demo_board = 2"
  "timer_config demo_board ! 0 = \<lparr>channels = 3, bitmode = 3, irqn = 8\<rparr>"
  "timer_config demo_board ! Suc 0 = \<lparr>channels = 3, bitmode = 0, irqn = 9\<rparr>"
  "CPU_FAM_NRF51 demo_board = False"
  "ctx demo_sys = [\<lparr>cb = 0, arg = 0, flags = 0, is_periodic = 0\<rparr>, \<lparr>cb = 0, arg = 0, flags = 0, is_periodic = 0\<rparr>]"
  "periph demo_sys = [hw_reset 4, hw_reset 4]"
  "nvic demo_sys = {}" "trace demo_sys = []"
  by (simp_all add: demo_board_def demo_sys_def sys_init_def TIMER_NUMOF_def eval_nat_numeral)

lemma wf_demo: "wf_sys demo_board demo_sys"
  by (auto simp: wf_sys_def demo_simps hw_reset_def less_2_cases_iff)

lemma demo_valid:
  "valid_tim demo_board 0" "valid_chan demo_board 0 1" "0 < TIMER_NUMOF demo_board"
  by (simp_all add: valid_tim_def valid_chan_def demo_simps)


subsection \<open>The prescaler search\<close>

lemma freq_loop_step:
  "i < 10 \<Longrightarrow> freq_loop b tim freq i cando s =
     (if freq = cando then prescaler_write b tim i s
      else freq_loop b tim freq (Suc i) (cando div 2) s)"
  "freq_loop b tim freq 10 cando s = Inr (10, s)"
  by (simp_all add: freq_loop.simps [of _ _ _ i] freq_loop.simps [of _ _ _ 10])

lemma freq_loop_unroll:
  "freq_loop b tim freq 0 F_TIMER s =
     (if freq = 16000000 then prescaler_write b tim 0 s
      else if freq = 8000000 then prescaler_write b tim 1 s
      else if freq = 4000000 then prescaler_write b tim 2 s
      else if freq = 2000000 then prescaler_write b tim 3 s
      else if freq = 1000000 then prescaler_write b tim 4 s
      else if freq = 500000 then prescaler_write b tim 5 s
      else if freq = 250000 then prescaler_write b tim 6 s
      else if freq = 125000 then prescaler_write b tim 7 s
      else if freq = 62500 then prescaler_write b tim 8 s
      else if freq = 31250 then prescaler_write b tim 9 s
      else Inr (10, s))"
proof -
  have n: "Suc 0 = 1" "Suc 1 = 2" "Suc 2 = 3" "Suc 3 = 4" "Suc 4 = 5" "Suc 5 = 6"
    "Suc 6 = 7" "Suc 7 = 8" "Suc 8 = 9" "Suc 9 = 10"
    by simp_all
  show ?thesis
    unfolding F_TIMER_def
    by (simp only: freq_loop_step(1) [of 0] freq_loop_step(1) [of 1] freq_loop_step(1) [of 2]
        freq_loop_step(1) [of 3] freq_loop_step(1) [of 4] freq_loop_step(1) [of 5]
        freq_loop_step(1) [of 6] freq_loop_step(1) [of 7] freq_loop_step(1) [of 8]
        freq_loop_step(1) [of 9] freq_loop_step(2) n) simp
qed

lemma le9_cases: "(e::nat) \<le> 9 \<Longrightarrow> e \<in> {0,1,2,3,4,5,6,7,8,9}"
  by auto

lemma freq_match:
  assumes "e \<le> 9" "16000000 div 2 ^ e = unat (freq::u32)"
  shows "freq_loop b tim freq 0 F_TIMER s = prescaler_write b tim e s"
    and "\<forall>e'<e. 16000000 div 2 ^ e' \<noteq> unat freq"
    and "unat freq * 2 ^ e = 16000000"
proof -
  from assms(1) have e: "e \<in> {0,1,2,3,4,5,6,7,8,9}" by (rule le9_cases)
  with assms(2) show "freq_loop b tim freq 0 F_TIMER s = prescaler_write b tim e s"
    by (auto simp: freq_loop_unroll word_unat_eq_iff)
  from e assms(2) show "unat freq * 2 ^ e = 16000000"
    by auto
  show "\<forall>e'<e. 16000000 div 2 ^ e' \<noteq> unat freq"
  proof (intro allI impI)
    fix e' assume "e' < e"
    with assms(1) have "e' \<in> {0,1,2,3,4,5,6,7,8,9}" by (intro le9_cases) simp
    with e assms(2) \<open>e' < e\<close> show "16000000 div 2 ^ e' \<noteq> unat freq"
      by auto
  qed
qed

lemma freq_no_match:
  assumes "\<forall>e\<le>9. 16000000 div 2 ^ e \<noteq> unat (freq::u32)"
  shows "freq_loop b tim freq 0 F_TIMER s = Inr (10, s)"
proof -
  have ne: "e \<le> 9 \<Longrightarrow> 16000000 div 2 ^ e \<noteq> unat freq" for e :: nat
    using assms by blast
  from ne [of 0] ne [of 1] ne [of 2] ne [of 3] ne [of 4] ne [of 5]
       ne [of 6] ne [of 7] ne [of 8] ne [of 9]
  show ?thesis
    by (simp add: freq_loop_unroll word_unat_eq_iff)
qed

lemma no_match_1500000: "\<forall>e\<le>9. 16000000 div 2 ^ e \<noteq> unat (1500000 :: u32)"
proof (intro allI impI)
  fix e :: nat assume "e \<le> 9"
  then have "e \<in> {0,1,2,3,4,5,6,7,8,9}" by (rule le9_cases)
  then show "16000000 div 2 ^ e \<noteq> unat (1500000 :: u32)" by auto
qed


subsection \<open>Bits and shifts\<close>

lemma set_bit8_eq: "set_bit8 x (2 ^ n) = x OR 2 ^ n"
  unfolding set_bit8_def
  by (rule bit_word_eqI) (auto simp: bit_simps)

lemma clear_bit8_eq: "clear_bit8 x (2 ^ n) = x AND NOT (2 ^ n)"
  unfolding clear_bit8_def
  by (rule bit_word_eqI) (auto simp: bit_simps)

lemma test_bit8_eq: "test_bit8 x (2 ^ n) \<longleftrightarrow> bit x n"
proof -
  have a: "(ucast x :: u32) AND 2 ^ n = (if bit x n then 2 ^ n else 0)"
    by (rule bit_word_eqI) (auto simp: bit_simps)
  have b: "(2::u32) ^ n \<noteq> 0" if "bit x n"
  proof
    assume z: "(2::u32) ^ n = 0"
    from that have "n < 8" by (auto dest: bit_imp_le_length)
    with z show False by simp
  qed
  show ?thesis unfolding test_bit8_def a using b by auto
qed

lemma msk_shift:
  "push_bit n TIMER_INTENSET_COMPARE0_Msk = 2 ^ (TIMER_INTENSET_COMPARE0_Pos + n)"
  unfolding TIMER_INTENSET_COMPARE0_Msk_def
  by (simp add: push_bit_eq_mult power_add)

lemma pos_bound: "n < 8 \<Longrightarrow> TIMER_INTENSET_COMPARE0_Pos + n < 32"
  by (simp add: TIMER_INTENSET_COMPARE0_Pos_def)

lemma and_not_exp_id: "\<not> bit (x :: 'a::len word) n \<Longrightarrow> x AND NOT (2 ^ n) = x"
  by (rule bit_word_eqI) (auto simp: bit_simps)

lemma bit_clear_other:
  "i \<noteq> j \<Longrightarrow> bit (x AND NOT (2 ^ j)) i \<longleftrightarrow> bit (x :: 'a::len word) i"
  by (auto simp: bit_simps dest: bit_imp_le_length)

lemma sub_bitsD: "p AND NOT f = 0 \<Longrightarrow> bit p i \<Longrightarrow> bit f i" for p f :: u8
proof -
  assume z: "p AND NOT f = 0" and b: "bit p i"
  from b have "i < 8" by (auto dest: bit_imp_le_length)
  from z have "\<not> bit (p AND NOT f) i" by simp
  with b \<open>i < 8\<close> show "bit f i" by (simp add: bit_simps)
qed

lemma sub_bitsI: "(\<And>i. i < 8 \<Longrightarrow> bit p i \<Longrightarrow> bit f i) \<Longrightarrow> p AND NOT f = 0" for p f :: u8
  by (rule bit_word_eqI) (auto simp: bit_simps)

lemma inv_bits_clear:
  fixes p f :: u8
  assumes "p AND NOT f = 0" "\<not> bit p n"
  shows "p AND NOT (f AND NOT (2 ^ n)) = 0"
  by (rule sub_bitsI) (use sub_bitsD [OF assms(1)] assms(2) in \<open>auto simp: bit_simps\<close>)

lemma valid_chanD:
  assumes "wf_sys b s" "valid_chan b tim chan"
  shows "tim < TIMER_NUMOF b" "tim < length (ctx s)" "tim < length (periph s)"
    "0 \<le> chan" "chan < 8"
    "\<not> uint (channels (timer_config b ! tim)) \<le> chan"
    "in_bounds chan (hw_CC (periph s ! tim))"
    "in_bounds chan (hw_EVENTS_COMPARE (periph s ! tim))"
    "shl_int1 chan = Some (2 ^ nat chan)"
    "shl_ulong m chan = Some (push_bit (nat chan) m)"
proof -
  from assms(2) have t: "tim < TIMER_NUMOF b" and c: "0 \<le> chan"
    "chan < uint (channels (timer_config b ! tim))"
    by (simp_all add: valid_chan_def)
  note w = wf_sysD [OF assms(1) t]
  have u: "uint (channels (timer_config b ! tim)) = int (unat (channels (timer_config b ! tim)))"
    by simp
  from c(2) w(4,6) have c8: "chan < 8" and cl: "chan < int (length (hw_CC (periph s ! tim)))"
    unfolding u by linarith+
  show "tim < TIMER_NUMOF b" "tim < length (ctx s)" "tim < length (periph s)"
    "0 \<le> chan" "chan < 8" "\<not> uint (channels (timer_config b ! tim)) \<le> chan"
    using t c c8 w(1,2) by simp_all
  show "in_bounds chan (hw_CC (periph s ! tim))"
    "in_bounds chan (hw_EVENTS_COMPARE (periph s ! tim))"
    using c(1) cl w(3) by (simp_all add: in_bounds_def)
  show "shl_int1 chan = Some (2 ^ nat chan)"
    "shl_ulong m chan = Some (push_bit (nat chan) m)"
    using c(1) c8 by (simp_all add: shl_int1_def shl_ulong_def)
qed

lemma valid_chan_nat:
  assumes "wf_sys b s" "valid_chan b tim chan"
  shows "nat chan < 8" "TIMER_INTENSET_COMPARE0_Pos + nat chan < 32"
  using valid_chanD(4,5) [OF assms] by (simp_all add: pos_bound)

lemma valid_chan_iff:
  "valid_chan b num i \<longleftrightarrow>
     num < TIMER_NUMOF b \<and> 0 \<le> i \<and> nat i < unat (channels (timer_config b ! num))"
proof -
  have u: "uint c = int (unat c)" for c :: u8 by simp
  have "i < uint c \<longleftrightarrow> nat i < unat c" if "0 \<le> i" for c :: u8
    using that u [of c] by linarith
  then show ?thesis unfolding valid_chan_def by blast
qed

lemma valid_chan_upt:
  "valid_tim b num \<Longrightarrow> j \<in> set [0..<unat (channels (timer_config b ! num))] \<Longrightarrow>
     valid_chan b num (int j)"
  by (simp add: valid_tim_def valid_chan_iff)


lemmas stmt_defs = ctx_modify_def if_then_def reg_write_def flags_set_def flags_clear_def
  is_periodic_set_def is_periodic_clear_def inten_write_def shorts_set_def shorts_clear_def
  set_bit8_eq clear_bit8_eq test_bit8_eq exec.simps

lemmas obs_defs = armed_def periodic_def irq_enabled_def short_enabled_def event_pending_def
  timer_running_def emitted_def


subsection \<open>Calls on valid arguments return\<close>

lemma timer_init_ok:
  assumes "wf_sys b s" "tim < TIMER_NUMOF b" "e \<le> 9" "16000000 div 2 ^ e = unat freq"
  shows "\<exists>s'. timer_init b tim freq cb' arg' s = Inr (0, s')
     \<and> hw_PRESCALER (periph s' ! tim) = of_nat e"
  using assms wf_sysD [OF assms(1,2)]
  unfolding timer_init_def
  by (auto simp: ctx_modify_def if_then_def reg_write_def freq_match prescaler_write_def
      in_bounds_def NVIC_EnableIRQ_def)

lemma timer_init_fail:
  assumes "wf_sys b s" "tim < TIMER_NUMOF b" "\<forall>e\<le>9. 16000000 div 2 ^ e \<noteq> unat freq"
  shows "\<exists>s'. timer_init b tim freq cb' arg' s = Inr (- 1, s')"
  using assms wf_sysD [OF assms(1,2)]
  unfolding timer_init_def
  by (auto simp: ctx_modify_def if_then_def reg_write_def freq_no_match prescaler_write_def
      in_bounds_def NVIC_EnableIRQ_def)

lemma prescaler_write_ok:
  assumes "wf_sys b s" "tim < TIMER_NUMOF b"
  shows "\<exists>s'. prescaler_write b tim e s = Inr (e, s') \<and> hw_PRESCALER (periph s' ! tim) = of_nat e"
  using wf_sysD [OF assms]  assms(2)
  by (simp add: prescaler_write_def reg_write_def)

lemma timer_set_absolute_ok:
  assumes "wf_sys b s" and "valid_chan b tim chan"
  shows "\<exists>s'. timer_set_absolute b tim chan v s = Inr (0, s') \<and> wf_sys b s' \<and>
     armed tim chan s' \<and> irq_enabled tim chan s' \<and>
     (periodic tim chan s' \<longleftrightarrow> periodic tim chan s) \<and>
     cb (ctx s' ! tim) = cb (ctx s ! tim) \<and> arg (ctx s' ! tim) = arg (ctx s ! tim)"
proof -
  note v = valid_chanD [OF assms] valid_chan_nat [OF assms]
  let ?s' = "s\<lparr>ctx := (ctx s)[tim := (ctx s ! tim)\<lparr>flags := flags (ctx s ! tim) OR 2 ^ nat chan\<rparr>],
        periph := (periph s)[tim := (periph s ! tim)
          \<lparr>hw_CC := (hw_CC (periph s ! tim))[nat chan := v],
           hw_EVENTS_COMPARE := (hw_EVENTS_COMPARE (periph s ! tim))[nat chan := 0],
           hw_INTEN := hw_INTEN (periph s ! tim) OR 2 ^ (TIMER_INTENSET_COMPARE0_Pos + nat chan)\<rparr>],
        trace := trace s @ [Write tim (CC chan) v, Write tim (EVENTS_COMPARE chan) 0,
           Write tim INTENSET (2 ^ (TIMER_INTENSET_COMPARE0_Pos + nat chan))]\<rparr>"
  have r: "timer_set_absolute b tim chan v s = Inr (0, ?s')"
    using v unfolding timer_set_absolute_def
    by (simp add: stmt_defs msk_shift exec.simps)
  have w: "wf_sys b ?s'"
    by (rule wf_sys_cong [OF assms(1)]) (use v(3) in \<open>simp_all add: nth_list_update\<close>)
  have o: "armed tim chan ?s' \<and> irq_enabled tim chan ?s' \<and>
     (periodic tim chan ?s' \<longleftrightarrow> periodic tim chan s) \<and>
     cb (ctx ?s' ! tim) = cb (ctx s ! tim) \<and> arg (ctx ?s' ! tim) = arg (ctx s ! tim)"
    using v by (simp add: obs_defs bit_simps)
  from r w o show ?thesis by blast
qed

lemma timer_clear_ok:
  assumes "wf_sys b s" and "valid_chan b tim chan"
  shows "timer_clear b tim chan s = Inr (0,
    s\<lparr>periph := (periph s)[tim := (periph s ! tim)
         \<lparr>hw_INTEN := hw_INTEN (periph s ! tim) AND NOT (2 ^ (TIMER_INTENSET_COMPARE0_Pos + nat chan)),
          hw_SHORTS := hw_SHORTS (periph s ! tim) AND NOT (2 ^ nat chan)\<rparr>],
       trace := trace s @
         [Write tim INTENCLR (2 ^ (TIMER_INTENSET_COMPARE0_Pos + nat chan)),
          Write tim SHORTS (hw_SHORTS (periph s ! tim) AND NOT (2 ^ nat chan))],
       ctx := (ctx s)[tim := (ctx s ! tim)
         \<lparr>flags := flags (ctx s ! tim) AND NOT (2 ^ nat chan),
          is_periodic := is_periodic (ctx s ! tim) AND NOT (2 ^ nat chan)\<rparr>]\<rparr>)"
  using valid_chanD [OF assms]
  unfolding timer_clear_def
  by (simp add: stmt_defs msk_shift)

lemma api_total:
  assumes "wf_sys b s"
  shows "valid_chan b tim chan \<Longrightarrow> \<exists>s'. timer_set_periodic b tim chan v fl s = Inr (0, s')"
    "valid_tim b tim \<Longrightarrow> \<exists>r s'. timer_read b tim s = Inr (r, s')"
    "valid_tim b tim \<Longrightarrow> \<exists>s'. timer_start b tim s = Inr s'"
    "valid_tim b tim \<Longrightarrow> \<exists>s'. timer_stop b tim s = Inr s'"
proof -
  show "\<exists>s'. timer_set_periodic b tim chan v fl s = Inr (0, s')" if "valid_chan b tim chan"
    using valid_chanD [OF assms that] unfolding timer_set_periodic_def
    by (simp add: stmt_defs exec.simps)
  assume "valid_tim b tim"
  then have t: "tim < TIMER_NUMOF b" by (simp add: valid_tim_def)
  note w = wf_sysD [OF assms t]
  have u: "uint c = int (unat c)" for c :: u8 by simp
  have "0 \<le> uint (channels (timer_config b ! tim))" by simp
  moreover from w(4) u [of "channels (timer_config b ! tim)"]
  have "uint (channels (timer_config b ! tim)) < int (length (hw_CC (periph s ! tim)))"
    by linarith
  ultimately have "in_bounds (uint (channels (timer_config b ! tim))) (hw_CC (periph s ! tim))"
    unfolding in_bounds_def by blast
  with t w show "\<exists>r s'. timer_read b tim s = Inr (r, s')"
    by (simp add: timer_read_def reg_write_def)
  from t w show "\<exists>s'. timer_start b tim s = Inr s'" "\<exists>s'. timer_stop b tim s = Inr s'"
    by (simp_all add: timer_start_def timer_stop_def reg_write_def)
qed

lemma hw_compare_match_props:
  assumes "wf_sys b s" and "valid_chan b tim chan"
  shows "wf_sys b (hw_compare_match tim chan s)"
    "event_pending tim chan (hw_compare_match tim chan s)"
    "armed tim c (hw_compare_match tim chan s) = armed tim c s"
    "periodic tim c (hw_compare_match tim chan s) = periodic tim c s"
    "ctx (hw_compare_match tim chan s) = ctx s"
proof -
  note v = valid_chanD [OF assms]
  show "wf_sys b (hw_compare_match tim chan s)"
    by (rule wf_sys_cong [OF assms(1)])
      (use v(3) in \<open>simp_all add: hw_compare_match_def nth_list_update\<close>)
  show "event_pending tim chan (hw_compare_match tim chan s)"
    using v by (simp add: hw_compare_match_def event_pending_def in_bounds_def)
  show "armed tim c (hw_compare_match tim chan s) = armed tim c s"
    "periodic tim c (hw_compare_match tim chan s) = periodic tim c s"
    "ctx (hw_compare_match tim chan s) = ctx s"
    by (simp_all add: hw_compare_match_def obs_defs)
qed


subsection \<open>Sequences of statements\<close>

declare exec.simps [simp del]

lemma exec_ConsE:
  assumes "exec (f # fs) s = Inr s'"
  obtains s1 where "f s = Inr s1" "exec fs s1 = Inr s'"
  using assms by (auto simp: exec.simps split: sum.splits)

lemma exec_holds:
  assumes "exec fs s = Inr s'" and "P s"
    and "\<And>f x y. f \<in> set fs \<Longrightarrow> P x \<Longrightarrow> f x = Inr y \<Longrightarrow> P y"
  shows "P s'"
  using assms
proof (induction fs arbitrary: s)
  case Nil
  then show ?case by (simp add: exec.simps)
next
  case (Cons f fs)
  from Cons.prems(1) obtain s1 where f: "f s = Inr s1" and r: "exec fs s1 = Inr s'"
    by (rule exec_ConsE)
  from Cons.prems(3) [of f s s1] f Cons.prems(2) have "P s1" by simp
  show ?case
  proof (rule Cons.IH [OF r \<open>P s1\<close>])
    fix g x y assume "g \<in> set fs" "P x" "g x = Inr y"
    then show "P y" using Cons.prems(3) [of g x y] by simp
  qed
qed

lemma exec_NilE: "exec [] s = Inr s' \<Longrightarrow> s' = s"
  by (simp add: exec.simps)

lemma exec_append:
  "exec (fs @ gs) s = (case exec fs s of Inl e \<Rightarrow> Inl e | Inr s1 \<Rightarrow> exec gs s1)"
  by (induction fs arbitrary: s) (auto simp: exec.simps split: sum.splits)

lemma if_then_InrD:
  "if_then c f s = Inr s' \<Longrightarrow> (c \<and> f s = Inr s') \<or> (\<not> c \<and> s' = s)"
  by (auto simp: if_then_def split: if_splits)

lemma ret_Inr:
  "(case m of Inl e \<Rightarrow> Inl e | Inr x \<Rightarrow> Inr (k, x)) = Inr (r, y) \<longleftrightarrow> r = k \<and> m = Inr y"
  by (cases m) auto

lemma api_cases:
  "timer_set_absolute b tim chan v s = Inr (r, s') \<Longrightarrow>
     r = - 1 \<and> s' = s \<or>
     r = 0 \<and> exec [flags_set tim chan, reg_write b tim (CC chan) v,
        reg_write b tim (EVENTS_COMPARE chan) 0, inten_write b tim INTENSET chan] s = Inr s'"
  "timer_set_periodic b tim chan v fl s = Inr (r, s') \<Longrightarrow>
     r = - 1 \<and> s' = s \<or>
     r = 0 \<and> exec [reg_write b tim TASKS_STOP 1, flags_set tim chan, is_periodic_set tim chan,
        reg_write b tim (CC chan) v,
        if_then (fl AND TIM_FLAG_RESET_ON_MATCH \<noteq> 0) (shorts_set b tim chan),
        if_then (fl AND TIM_FLAG_RESET_ON_SET \<noteq> 0) (reg_write b tim TASKS_CLEAR 1),
        reg_write b tim (EVENTS_COMPARE chan) 0,
        inten_write b tim INTENSET chan,
        if_then (\<not> (fl AND TIM_FLAG_SET_STOPPED \<noteq> 0)) (reg_write b tim TASKS_START 1)] s
       = Inr s'"
  "timer_clear b tim chan s = Inr (r, s') \<Longrightarrow>
     r = - 1 \<and> s' = s \<or>
     r = 0 \<and> exec [inten_write b tim INTENCLR chan, shorts_clear b tim chan,
        flags_clear tim chan, is_periodic_clear tim chan] s = Inr s'"
  unfolding timer_set_absolute_def timer_set_periodic_def timer_clear_def
  by (simp_all add: ret_Inr split: if_splits)

lemma reg_write_InrD:
  assumes "reg_write b tim r v s = Inr s'"
  shows "ctx s' = ctx s" "nvic s' = nvic s" "length (periph s') = length (periph s)"
    "trace s' = trace s @ [Write tim r v]"
  using assms by (auto simp: reg_write_def split: if_splits sum.splits)

lemma freq_loop_InrD:
  "freq_loop b tim freq i cando s = Inr (k, s') \<Longrightarrow> ctx s' = ctx s"
proof (induction b tim freq i cando s rule: freq_loop.induct)
  case (1 b tim freq i cando s)
  show ?case
  proof (cases "i < 10 \<and> freq \<noteq> cando")
    case True
    with "1.prems" have "freq_loop b tim freq (i + 1) (cando div 2) s = Inr (k, s')"
      by (simp add: freq_loop.simps [of b tim freq i])
    with True "1.IH" show ?thesis by simp
  next
    case False
    with "1.prems" show ?thesis
      by (auto simp: freq_loop.simps [of b tim freq i] prescaler_write_def
          split: if_splits sum.splits dest: reg_write_InrD(1))
  qed
qed

lemma keeps_ctx:
  "reg_write b tim r v s = Inr s' \<Longrightarrow> ctx s' = ctx s"
  "inten_write b tim r chan s = Inr s' \<Longrightarrow> ctx s' = ctx s"
  "shorts_set b tim chan s = Inr s' \<Longrightarrow> ctx s' = ctx s"
  "shorts_clear b tim chan s = Inr s' \<Longrightarrow> ctx s' = ctx s"
  "NVIC_EnableIRQ b tim s = Inr s' \<Longrightarrow> ctx s' = ctx s"
  "call_cb tim i s = Inr s' \<Longrightarrow> ctx s' = ctx s"
  "cortexm_isr_end s = Inr s' \<Longrightarrow> ctx s' = ctx s"
  by (auto simp: inten_write_def shorts_set_def shorts_clear_def NVIC_EnableIRQ_def call_cb_def
      cortexm_isr_end_def dest: reg_write_InrD(1) split: option.splits if_splits)

lemma exec_keeps_ctx:
  assumes "exec fs s = Inr s'" and "\<And>f x y. f \<in> set fs \<Longrightarrow> f x = Inr y \<Longrightarrow> ctx y = ctx x"
  shows "ctx s' = ctx s"
  by (rule exec_holds [OF assms(1), where P = "\<lambda>x. ctx x = ctx s"]) (auto dest: assms(2))

lemma ctx_bit_stmts:
  "flags_set tim chan s = Inr s' \<Longrightarrow>
     tim < length (ctx s) \<and> 0 \<le> chan \<and>
     ctx s' = (ctx s)[tim := (ctx s ! tim)\<lparr>flags := flags (ctx s ! tim) OR 2 ^ nat chan\<rparr>]"
  "flags_clear tim chan s = Inr s' \<Longrightarrow>
     tim < length (ctx s) \<and> 0 \<le> chan \<and>
     ctx s' = (ctx s)[tim := (ctx s ! tim)\<lparr>flags := flags (ctx s ! tim) AND NOT (2 ^ nat chan)\<rparr>]"
  "is_periodic_set tim chan s = Inr s' \<Longrightarrow>
     tim < length (ctx s) \<and> 0 \<le> chan \<and>
     ctx s' = (ctx s)[tim := (ctx s ! tim)\<lparr>is_periodic := is_periodic (ctx s ! tim) OR 2 ^ nat chan\<rparr>]"
  "is_periodic_clear tim chan s = Inr s' \<Longrightarrow>
     tim < length (ctx s) \<and> 0 \<le> chan \<and>
     ctx s' = (ctx s)[tim := (ctx s ! tim)\<lparr>is_periodic := is_periodic (ctx s ! tim) AND NOT (2 ^ nat chan)\<rparr>]"
  by (auto simp: flags_set_def flags_clear_def is_periodic_set_def is_periodic_clear_def
      shl_int1_def ctx_modify_def set_bit8_eq clear_bit8_eq split: if_splits)


subsection \<open>The invariant, operation by operation\<close>

lemma ctx_inv_iff:
  "ctx_inv s \<longleftrightarrow>
     (\<forall>tim < length (ctx s). is_periodic (ctx s ! tim) AND NOT (flags (ctx s ! tim)) = 0)"
proof -
  have "(\<forall>i<8. bit p i \<longrightarrow> bit f i) \<longleftrightarrow> p AND NOT f = 0" for p f :: u8
    using sub_bitsD [of p f] sub_bitsI [of p f] by blast
  then show ?thesis by (simp add: ctx_inv_def periodic_def armed_def)
qed

lemma ctx_inv_cong: "ctx s' = ctx s \<Longrightarrow> ctx_inv s' = ctx_inv s"
  by (simp add: ctx_inv_iff)

lemma ctx_inv_update:
  assumes "ctx_inv s" "ctx s' = (ctx s)[tim := c]" "is_periodic c AND NOT (flags c) = 0"
  shows "ctx_inv s'"
  unfolding ctx_inv_iff
proof (intro allI impI)
  fix t assume "t < length (ctx s')"
  with assms(2) have l: "t < length (ctx s)" by simp
  show "is_periodic (ctx s' ! t) AND NOT (flags (ctx s' ! t)) = 0"
  proof (cases "t = tim")
    case True
    with l assms(2,3) show ?thesis by simp
  next
    case False
    with l assms(1,2) show ?thesis by (simp add: ctx_inv_iff)
  qed
qed

lemma ctx_inv_sys_init: "ctx_inv (sys_init b n)"
  by (simp add: ctx_inv_iff sys_init_def)

lemma ctx_inv_entry:
  "ctx_inv s \<Longrightarrow> tim < length (ctx s) \<Longrightarrow>
     is_periodic (ctx s ! tim) AND NOT (flags (ctx s ! tim)) = 0"
  by (simp add: ctx_inv_iff)

lemma ctx_inv_demo: "ctx_inv demo_sys"
  unfolding demo_sys_def by (rule ctx_inv_sys_init)

lemma demo_oneshot_props:
  "wf_sys demo_board demo_oneshot" "ctx_inv demo_oneshot"
  "event_pending 0 1 demo_oneshot" "armed 0 1 demo_oneshot" "\<not> periodic 0 1 demo_oneshot"
proof -
  show "wf_sys demo_board demo_oneshot"
    by (auto simp: wf_sys_def demo_simps demo_oneshot_def hw_reset_def less_2_cases_iff)
  show "ctx_inv demo_oneshot"
    by (auto simp: ctx_inv_iff demo_oneshot_def less_Suc_eq)
  show "event_pending 0 1 demo_oneshot" "armed 0 1 demo_oneshot" "\<not> periodic 0 1 demo_oneshot"
    by (simp_all add: obs_defs demo_oneshot_def in_bounds_def)
qed

lemma timer_init_ctx:
  assumes "timer_init b tim freq cb' arg' s = Inr (r, s')" and "tim < TIMER_NUMOF b"
  shows "tim < length (ctx s) \<and>
    ctx s' = (ctx s)[tim := (ctx s ! tim)\<lparr>cb := cb', arg := arg'\<rparr>]"
proof -
  let ?c = "(ctx s ! tim)\<lparr>cb := cb', arg := arg'\<rparr>"
  let ?tail = "[reg_write b tim (EVENTS_COMPARE 0) 0,
           reg_write b tim (EVENTS_COMPARE 1) 0,
           reg_write b tim (EVENTS_COMPARE 2) 0,
           NVIC_EnableIRQ b tim,
           reg_write b tim TASKS_START 1]"
  from assms obtain s1 s2 i where
    e0: "exec [ctx_modify tim (\<lambda>c. c\<lparr>cb := cb'\<rparr>),
           ctx_modify tim (\<lambda>c. c\<lparr>arg := arg'\<rparr>),
           if_then (CPU_FAM_NRF51 b) (reg_write b tim POWER 1),
           reg_write b tim TASKS_STOP 1,
           reg_write b tim BITMODE (ucast (bitmode (timer_config b ! tim))),
           reg_write b tim MODE TIMER_MODE_MODE_Timer,
           reg_write b tim TASKS_CLEAR 1] s = Inr s1" and
    l: "freq_loop b tim freq 0 F_TIMER s1 = Inr (i, s2)" and
    e2: "s' = s2 \<or> exec ?tail s2 = Inr s'"
    unfolding timer_init_def
    by (auto simp: ret_Inr split: sum.splits prod.splits if_splits)
  from e0 obtain sa where a: "ctx_modify tim (\<lambda>c. c\<lparr>cb := cb'\<rparr>) s = Inr sa"
    and e0': "exec [ctx_modify tim (\<lambda>c. c\<lparr>arg := arg'\<rparr>),
           if_then (CPU_FAM_NRF51 b) (reg_write b tim POWER 1),
           reg_write b tim TASKS_STOP 1,
           reg_write b tim BITMODE (ucast (bitmode (timer_config b ! tim))),
           reg_write b tim MODE TIMER_MODE_MODE_Timer,
           reg_write b tim TASKS_CLEAR 1] sa = Inr s1"
    by (rule exec_ConsE)
  from e0' obtain sb where b: "ctx_modify tim (\<lambda>c. c\<lparr>arg := arg'\<rparr>) sa = Inr sb"
    and e1: "exec [if_then (CPU_FAM_NRF51 b) (reg_write b tim POWER 1),
           reg_write b tim TASKS_STOP 1,
           reg_write b tim BITMODE (ucast (bitmode (timer_config b ! tim))),
           reg_write b tim MODE TIMER_MODE_MODE_Timer,
           reg_write b tim TASKS_CLEAR 1] sb = Inr s1"
    by (rule exec_ConsE)
  from a b have l0: "tim < length (ctx s)" and c0: "ctx sb = (ctx s)[tim := ?c]"
    by (auto simp: ctx_modify_def split: if_splits)
  have "ctx s1 = ctx sb"
    by (rule exec_keeps_ctx [OF e1]) (auto dest!: if_then_InrD dest: keeps_ctx)
  moreover from freq_loop_InrD [OF l] have "ctx s2 = ctx s1" .
  moreover have "ctx s' = ctx s2"
  proof (cases "s' = s2")
    case True
    then show ?thesis by simp
  next
    case False
    with e2 have "exec ?tail s2 = Inr s'" by simp
    then show ?thesis
      by (rule exec_keeps_ctx) (auto dest: keeps_ctx)
  qed
  ultimately have "ctx s' = (ctx s)[tim := ?c]" using c0 by simp
  with l0 show ?thesis by simp
qed

lemma inv_timer_init:
  assumes "ctx_inv s" "timer_init b tim freq cb' arg' s = Inr (r, s')"
  shows "ctx_inv s'"
proof (cases "tim < TIMER_NUMOF b")
  case False
  with assms show ?thesis by (simp add: timer_init_def)
next
  case True
  from timer_init_ctx [OF assms(2) True]
  have l0: "tim < length (ctx s)"
    and c: "ctx s' = (ctx s)[tim := (ctx s ! tim)\<lparr>cb := cb', arg := arg'\<rparr>]"
    by simp_all
  from c show ?thesis
    by (rule ctx_inv_update [OF assms(1)]) (simp add: ctx_inv_entry [OF assms(1) l0])
qed

lemma inv_set_absolute:
  assumes "ctx_inv s" "timer_set_absolute b tim chan v s = Inr (r, s')"
  shows "ctx_inv s'"
proof (cases "r = 0")
  case False
  with api_cases(1) [OF assms(2)] assms(1) show ?thesis by auto
next
  case True
  with api_cases(1) [OF assms(2)] have "exec [flags_set tim chan, reg_write b tim (CC chan) v,
        reg_write b tim (EVENTS_COMPARE chan) 0, inten_write b tim INTENSET chan] s = Inr s'"
    by simp
  then obtain s1 where a: "flags_set tim chan s = Inr s1"
    and e: "exec [reg_write b tim (CC chan) v, reg_write b tim (EVENTS_COMPARE chan) 0,
                  inten_write b tim INTENSET chan] s1 = Inr s'"
    by (rule exec_ConsE)
  note f = ctx_bit_stmts(1) [OF a]
  have "ctx s' = ctx s1"
    by (rule exec_keeps_ctx [OF e]) (auto dest: keeps_ctx)
  let ?c = "(ctx s ! tim)\<lparr>flags := flags (ctx s ! tim) OR 2 ^ nat chan\<rparr>"
  from \<open>ctx s' = ctx s1\<close> f have "ctx s' = (ctx s)[tim := ?c]"
    by simp
  then show ?thesis
  proof (rule ctx_inv_update [OF assms(1)])
    from f have "tim < length (ctx s)" by simp
    note sub_bitsD [OF ctx_inv_entry [OF assms(1) this]]
    then show "is_periodic ?c AND NOT (flags ?c) = 0"
      by (intro sub_bitsI) (auto simp: bit_simps)
  qed
qed

lemma inv_set_periodic:
  assumes "ctx_inv s" "timer_set_periodic b tim chan v fl s = Inr (r, s')"
  shows "ctx_inv s'"
proof (cases "r = 0")
  case False
  with api_cases(2) [OF assms(2)] assms(1) show ?thesis by auto
next
  case True
  with api_cases(2) [OF assms(2)] have "exec [reg_write b tim TASKS_STOP 1,
        flags_set tim chan, is_periodic_set tim chan,
        reg_write b tim (CC chan) v,
        if_then (fl AND TIM_FLAG_RESET_ON_MATCH \<noteq> 0) (shorts_set b tim chan),
        if_then (fl AND TIM_FLAG_RESET_ON_SET \<noteq> 0) (reg_write b tim TASKS_CLEAR 1),
        reg_write b tim (EVENTS_COMPARE chan) 0,
        inten_write b tim INTENSET chan,
        if_then (\<not> (fl AND TIM_FLAG_SET_STOPPED \<noteq> 0)) (reg_write b tim TASKS_START 1)] s
       = Inr s'"
    by simp
  then obtain s0 where z: "reg_write b tim TASKS_STOP 1 s = Inr s0"
    and e0: "exec [flags_set tim chan, is_periodic_set tim chan,
        reg_write b tim (CC chan) v,
        if_then (fl AND TIM_FLAG_RESET_ON_MATCH \<noteq> 0) (shorts_set b tim chan),
        if_then (fl AND TIM_FLAG_RESET_ON_SET \<noteq> 0) (reg_write b tim TASKS_CLEAR 1),
        reg_write b tim (EVENTS_COMPARE chan) 0,
        inten_write b tim INTENSET chan,
        if_then (\<not> (fl AND TIM_FLAG_SET_STOPPED \<noteq> 0)) (reg_write b tim TASKS_START 1)] s0
       = Inr s'"
    by (rule exec_ConsE)
  from e0 obtain s1 where a: "flags_set tim chan s0 = Inr s1"
    and e1: "exec [is_periodic_set tim chan,
        reg_write b tim (CC chan) v,
        if_then (fl AND TIM_FLAG_RESET_ON_MATCH \<noteq> 0) (shorts_set b tim chan),
        if_then (fl AND TIM_FLAG_RESET_ON_SET \<noteq> 0) (reg_write b tim TASKS_CLEAR 1),
        reg_write b tim (EVENTS_COMPARE chan) 0,
        inten_write b tim INTENSET chan,
        if_then (\<not> (fl AND TIM_FLAG_SET_STOPPED \<noteq> 0)) (reg_write b tim TASKS_START 1)] s1
       = Inr s'"
    by (rule exec_ConsE)
  from e1 obtain s2 where p: "is_periodic_set tim chan s1 = Inr s2"
    and e: "exec [reg_write b tim (CC chan) v,
        if_then (fl AND TIM_FLAG_RESET_ON_MATCH \<noteq> 0) (shorts_set b tim chan),
        if_then (fl AND TIM_FLAG_RESET_ON_SET \<noteq> 0) (reg_write b tim TASKS_CLEAR 1),
        reg_write b tim (EVENTS_COMPARE chan) 0,
        inten_write b tim INTENSET chan,
        if_then (\<not> (fl AND TIM_FLAG_SET_STOPPED \<noteq> 0)) (reg_write b tim TASKS_START 1)] s2
       = Inr s'"
    by (rule exec_ConsE)
  from keeps_ctx(1) [OF z] have c0: "ctx s0 = ctx s" .
  note f = ctx_bit_stmts(1) [OF a, unfolded c0]
  note g = ctx_bit_stmts(3) [OF p]
  have "ctx s' = ctx s2"
    by (rule exec_keeps_ctx [OF e]) (auto dest!: if_then_InrD dest: keeps_ctx)
  let ?c = "(ctx s ! tim)\<lparr>flags := flags (ctx s ! tim) OR 2 ^ nat chan,
       is_periodic := is_periodic (ctx s ! tim) OR 2 ^ nat chan\<rparr>"
  from \<open>ctx s' = ctx s2\<close> f g have "ctx s' = (ctx s)[tim := ?c]"
    by simp
  then show ?thesis
  proof (rule ctx_inv_update [OF assms(1)])
    from f have "tim < length (ctx s)" by simp
    note sub_bitsD [OF ctx_inv_entry [OF assms(1) this]]
    then show "is_periodic ?c AND NOT (flags ?c) = 0"
      by (intro sub_bitsI) (auto simp: bit_simps)
  qed
qed

lemma inv_clear:
  assumes "ctx_inv s" "timer_clear b tim chan s = Inr (r, s')"
  shows "ctx_inv s'"
proof (cases "r = 0")
  case False
  with api_cases(3) [OF assms(2)] assms(1) show ?thesis by auto
next
  case True
  with api_cases(3) [OF assms(2)] have "exec [inten_write b tim INTENCLR chan,
        shorts_clear b tim chan, flags_clear tim chan, is_periodic_clear tim chan] s = Inr s'"
    by simp
  then obtain s0 where z: "inten_write b tim INTENCLR chan s = Inr s0"
    and e0: "exec [shorts_clear b tim chan, flags_clear tim chan, is_periodic_clear tim chan] s0
       = Inr s'"
    by (rule exec_ConsE)
  from e0 obtain s1 where y: "shorts_clear b tim chan s0 = Inr s1"
    and e1: "exec [flags_clear tim chan, is_periodic_clear tim chan] s1 = Inr s'"
    by (rule exec_ConsE)
  from e1 obtain s2 where a: "flags_clear tim chan s1 = Inr s2"
    and p: "is_periodic_clear tim chan s2 = Inr s'"
    by (auto elim!: exec_ConsE dest!: exec_NilE)
  from keeps_ctx(2) [OF z] keeps_ctx(4) [OF y] have c1: "ctx s1 = ctx s" by simp
  note f = ctx_bit_stmts(2) [OF a, unfolded c1]
  note g = ctx_bit_stmts(4) [OF p]
  let ?c = "(ctx s ! tim)\<lparr>flags := flags (ctx s ! tim) AND NOT (2 ^ nat chan),
       is_periodic := is_periodic (ctx s ! tim) AND NOT (2 ^ nat chan)\<rparr>"
  from f g have "ctx s' = (ctx s)[tim := ?c]"
    by simp
  then show ?thesis
  proof (rule ctx_inv_update [OF assms(1)])
    from f have "tim < length (ctx s)" by simp
    note sub_bitsD [OF ctx_inv_entry [OF assms(1) this]]
    then show "is_periodic ?c AND NOT (flags ?c) = 0"
      by (intro sub_bitsI) (auto simp: bit_simps)
  qed
qed

lemma inv_read_start_stop:
  assumes "ctx_inv s"
  shows "timer_read b tim s = Inr (v, s') \<Longrightarrow> ctx_inv s'"
    "timer_start b tim s = Inr s' \<Longrightarrow> ctx_inv s'"
    "timer_stop b tim s = Inr s' \<Longrightarrow> ctx_inv s'"
proof -
  have k: "reg_write b tim r w s = Inr s' \<Longrightarrow> ctx_inv s'" for r w
    using assms ctx_inv_cong [OF keeps_ctx(1) [of b tim r w s s']] by simp
  show "timer_read b tim s = Inr (v, s') \<Longrightarrow> ctx_inv s'"
    by (auto simp: timer_read_def split: if_splits sum.splits intro: k)
  show "timer_start b tim s = Inr s' \<Longrightarrow> ctx_inv s'"
    "timer_stop b tim s = Inr s' \<Longrightarrow> ctx_inv s'"
    by (auto simp: timer_start_def timer_stop_def intro: k)
qed

lemma irq_channel_InrD:
  assumes "irq_channel b num i s = Inr s'"
  shows "s' = s \<or>
    (\<exists>s1. reg_write b num (EVENTS_COMPARE i) 0 s = Inr s1 \<and>
       (s' = s1 \<or> call_cb num i s1 = Inr s' \<or>
        (\<exists>s2 s3. \<not> bit (is_periodic (ctx s1 ! num)) (nat i) \<and>
           flags_clear num i s1 = Inr s2 \<and> inten_write b num INTENCLR i s2 = Inr s3 \<and>
           call_cb num i s3 = Inr s')))"
  using assms unfolding irq_channel_def
  by (auto simp: exec.simps shl_int1_def test_bit8_eq split: if_splits sum.splits)

lemma inv_irq_channel:
  assumes "ctx_inv s" and "irq_channel b num i s = Inr s'"
  shows "ctx_inv s'"
proof -
  from irq_channel_InrD [OF assms(2)]
  consider "s' = s"
    | s1 where "reg_write b num (EVENTS_COMPARE i) 0 s = Inr s1" "s' = s1"
    | s1 where "reg_write b num (EVENTS_COMPARE i) 0 s = Inr s1" "call_cb num i s1 = Inr s'"
    | s1 s2 s3 where "reg_write b num (EVENTS_COMPARE i) 0 s = Inr s1"
        "\<not> bit (is_periodic (ctx s1 ! num)) (nat i)"
        "flags_clear num i s1 = Inr s2" "inten_write b num INTENCLR i s2 = Inr s3"
        "call_cb num i s3 = Inr s'"
    by blast
  then show ?thesis
  proof cases
    case 1
    with assms(1) show ?thesis by simp
  next
    case 2
    from keeps_ctx(1) [OF 2(1)] 2(2) have "ctx s' = ctx s" by simp
    from ctx_inv_cong [OF this] assms(1) show ?thesis by simp
  next
    case 3
    from keeps_ctx(1) [OF 3(1)] keeps_ctx(6) [OF 3(2)] have "ctx s' = ctx s" by simp
    from ctx_inv_cong [OF this] assms(1) show ?thesis by simp
  next
    case 4
    from keeps_ctx(1) [OF 4(1)] have c1: "ctx s1 = ctx s" .
    note f = ctx_bit_stmts(2) [OF 4(3), unfolded c1]
    let ?c = "(ctx s ! num)\<lparr>flags := flags (ctx s ! num) AND NOT (2 ^ nat i)\<rparr>"
    from keeps_ctx(2) [OF 4(4)] keeps_ctx(6) [OF 4(5)] f
    have "ctx s' = (ctx s)[num := ?c]" by simp
    then show ?thesis
    proof (rule ctx_inv_update [OF assms(1)])
      from f have "num < length (ctx s)" by simp
      note e = ctx_inv_entry [OF assms(1) this]
      from 4(2) c1 have "\<not> bit (is_periodic (ctx s ! num)) (nat i)" by simp
      from inv_bits_clear [OF e this]
      show "is_periodic ?c AND NOT (flags ?c) = 0" by simp
    qed
  qed
qed

lemma inv_irq_handler:
  assumes "ctx_inv s" and "irq_handler b num s = Inr s'"
  shows "ctx_inv s'"
proof -
  from assms(2) have
    e: "exec (map (\<lambda>i. irq_channel b num (int i))
          [0 ..< unat (channels (timer_config b ! num))] @ [cortexm_isr_end]) s = Inr s'"
    by (simp add: irq_handler_def split: if_splits)
  show ?thesis
  proof (rule exec_holds [OF e, where P = ctx_inv, OF assms(1)])
    fix f x y
    assume f: "f \<in> set (map (\<lambda>i. irq_channel b num (int i))
          [0 ..< unat (channels (timer_config b ! num))] @ [cortexm_isr_end])"
      and x: "ctx_inv x" and y: "f x = Inr y"
    from f consider j where "f = irq_channel b num (int j)" | "f = cortexm_isr_end"
      by auto
    then show "ctx_inv y"
    proof cases
      case 1
      with x y show ?thesis by (auto intro: inv_irq_channel)
    next
      case 2
      with y have "ctx y = ctx x" by (auto dest: keeps_ctx(7))
      from ctx_inv_cong [OF this] x show ?thesis by simp
    qed
  qed
qed


subsection \<open>The dispatcher, channel by channel\<close>

lemma wf_sys_irq_channel:
  assumes "wf_sys b s" and "irq_channel b num j s = Inr s'" and "valid_chan b num j"
  shows "wf_sys b s'"
proof (rule wf_sys_cong [OF assms(1)])
  note v = valid_chanD [OF assms(1,3)]
  from assms(2) v
  have c: "length (ctx s') = length (ctx s) \<and> length (periph s') = length (periph s) \<and>
    (\<forall>t. t < TIMER_NUMOF b \<longrightarrow>
      length (hw_CC (periph s' ! t)) = length (hw_CC (periph s ! t)) \<and>
      length (hw_EVENTS_COMPARE (periph s' ! t)) = length (hw_EVENTS_COMPARE (periph s ! t)))"
    unfolding irq_channel_def
    by (auto simp: stmt_defs msk_shift exec.simps call_cb_def in_bounds_def nth_list_update
        split: if_splits)
  from c show "length (ctx s') = length (ctx s)" "length (periph s') = length (periph s)"
    by simp_all
  fix t assume "t < TIMER_NUMOF b"
  with c show "length (hw_CC (periph s' ! t)) = length (hw_CC (periph s ! t))"
    "length (hw_EVENTS_COMPARE (periph s' ! t)) = length (hw_EVENTS_COMPARE (periph s ! t))"
    by simp_all
qed

lemma irq_channel_frame:
  assumes "wf_sys b s" and "valid_chan b num j" and "i \<noteq> j"
    and "irq_channel b num j s = Inr s'"
  shows "chan_frame num i s s'"
proof -
  note v = valid_chanD [OF assms(1,2)]
  have n: "0 \<le> i \<Longrightarrow> nat i \<noteq> nat j"
    "0 \<le> i \<Longrightarrow> TIMER_INTENSET_COMPARE0_Pos + nat i \<noteq> TIMER_INTENSET_COMPARE0_Pos + nat j"
    using assms(3) v(4) by simp_all
  from assms(4) v n show ?thesis
    unfolding irq_channel_def chan_frame_def
    by (auto simp: stmt_defs obs_defs msk_shift exec.simps call_cb_def in_bounds_def
        bit_clear_other split: if_splits)
qed

lemma irq_channel_disarmed:
  assumes "wf_sys b s" and "valid_chan b num i" and "\<not> armed num i s"
    and "irq_channel b num i s = Inr s'"
  shows "\<not> armed num i s' \<and> \<not> event_pending num i s' \<and>
     (\<exists>new. trace s' = trace s @ new \<and> filter (is_callback_for i) new = [])"
  using valid_chanD [OF assms(1,2)] assms(3,4)
  unfolding irq_channel_def
  by (auto simp: stmt_defs obs_defs exec.simps in_bounds_def split: if_splits)

lemma emitted_append: "trace s' = trace s @ new \<Longrightarrow> emitted s s' = new"
  by (simp add: emitted_def)

lemma irq_channel_total:
  assumes "wf_sys b s" and "valid_chan b num j" and "cb (ctx s ! num) \<noteq> 0"
  shows "\<exists>s'. irq_channel b num j s = Inr s'"
  using valid_chanD [OF assms(1,2)] assms(3)
  unfolding irq_channel_def
  by (simp add: stmt_defs msk_shift exec.simps call_cb_def in_bounds_def)

lemma irq_channel_disarmed_returns:
  assumes "wf_sys b s" and "valid_chan b num i" and "\<not> armed num i s"
  shows "\<exists>s1. irq_channel b num i s = Inr s1 \<and>
     emitted s s1 = (if event_pending num i s then [Write num (EVENTS_COMPARE i) 0] else [])"
  using valid_chanD [OF assms(1,2)] assms(3)
  unfolding irq_channel_def
  by (simp add: stmt_defs obs_defs exec.simps in_bounds_def)

lemma irq_channel_cb:
  assumes "wf_sys b s" and "valid_chan b num j" and "irq_channel b num j s = Inr s'"
  shows "cb (ctx s' ! num) = cb (ctx s ! num)"
proof -
  have "j + 1 \<noteq> j" by simp
  from irq_channel_frame [OF assms(1,2) this assms(3)] show ?thesis
    by (simp add: chan_frame_def)
qed

lemma exec_appendE:
  assumes "exec (fs @ gs) s = Inr s'"
  obtains s1 where "exec fs s = Inr s1" "exec gs s1 = Inr s'"
  using assms by (auto simp: exec_append split: sum.splits)

lemma irq_loop_total:
  assumes "wf_sys b s" and "cb (ctx s ! num) \<noteq> 0"
    and "\<forall>j\<in>set js. valid_chan b num (int j)"
  shows "\<exists>s'. exec (map (\<lambda>j. irq_channel b num (int j)) js) s = Inr s'"
  using assms
proof (induction js arbitrary: s)
  case Nil
  then show ?case by (simp add: exec.simps)
next
  case (Cons j js)
  from Cons.prems(3) have v: "valid_chan b num (int j)" by simp
  from irq_channel_total [OF Cons.prems(1) v Cons.prems(2)] obtain s1
    where s1: "irq_channel b num (int j) s = Inr s1" by blast
  note w1 = wf_sys_irq_channel [OF Cons.prems(1) s1 v]
  from irq_channel_cb [OF Cons.prems(1) v s1] Cons.prems(2)
  have c1: "cb (ctx s1 ! num) \<noteq> 0" by simp
  from Cons.prems(3) have "\<forall>j\<in>set js. valid_chan b num (int j)" by simp
  from Cons.IH [OF w1 c1 this] s1 show ?case
    by (auto simp: exec.simps)
qed

lemma irq_loop_disarmed:
  assumes "wf_sys b s" and "\<not> armed num i s"
    and "\<forall>j\<in>set js. valid_chan b num (int j)"
    and "exec (map (\<lambda>j. irq_channel b num (int j)) js) s = Inr s'"
  shows "wf_sys b s' \<and> \<not> armed num i s' \<and>
    (\<exists>new. trace s' = trace s @ new \<and> filter (is_callback_for i) new = []) \<and>
    (i \<in> int ` set js \<or> \<not> event_pending num i s \<longrightarrow> \<not> event_pending num i s')"
  using assms
proof (induction js arbitrary: s)
  case Nil
  then show ?case by (auto dest: exec_NilE)
next
  case (Cons j js)
  from Cons.prems(3) have v: "valid_chan b num (int j)"
    and vs: "\<forall>j\<in>set js. valid_chan b num (int j)" by simp_all
  from Cons.prems(4) obtain s1 where s1: "irq_channel b num (int j) s = Inr s1"
    and r: "exec (map (\<lambda>j. irq_channel b num (int j)) js) s1 = Inr s'"
    by (auto elim: exec_ConsE)
  note w1 = wf_sys_irq_channel [OF Cons.prems(1) s1 v]
  have st: "\<not> armed num i s1 \<and>
    (\<exists>new. trace s1 = trace s @ new \<and> filter (is_callback_for i) new = []) \<and>
    (int j = i \<or> \<not> event_pending num i s \<longrightarrow> \<not> event_pending num i s1)"
  proof (cases "int j = i")
    case True
    with v s1 have "valid_chan b num i" "irq_channel b num i s = Inr s1" by simp_all
    from irq_channel_disarmed [OF Cons.prems(1) this(1) Cons.prems(2) this(2)]
    show ?thesis by auto
  next
    case False
    then have "i \<noteq> int j" by simp
    from irq_channel_frame [OF Cons.prems(1) v this s1] Cons.prems(2) False
    show ?thesis by (auto simp: chan_frame_def)
  qed
  then obtain new1 where a1: "\<not> armed num i s1"
    and n1: "trace s1 = trace s @ new1" "filter (is_callback_for i) new1 = []"
    and e1: "int j = i \<or> \<not> event_pending num i s \<longrightarrow> \<not> event_pending num i s1"
    by blast
  from Cons.IH [OF w1 a1 vs r] obtain new2 where w2: "wf_sys b s'"
    and a2: "\<not> armed num i s'"
    and n2: "trace s' = trace s1 @ new2" "filter (is_callback_for i) new2 = []"
    and e2: "i \<in> int ` set js \<or> \<not> event_pending num i s1 \<longrightarrow> \<not> event_pending num i s'"
    by blast
  from n1 n2 have "trace s' = trace s @ (new1 @ new2)"
    "filter (is_callback_for i) (new1 @ new2) = []" by simp_all
  then have q: "\<exists>new. trace s' = trace s @ new \<and> filter (is_callback_for i) new = []"
    by blast
  from e1 e2 have "i \<in> int ` set (j # js) \<or> \<not> event_pending num i s \<longrightarrow>
      \<not> event_pending num i s'"
    by auto
  with w2 a2 q show ?case by blast
qed

lemma irq_handler_total:
  assumes "wf_sys b s" and "valid_tim b num" and "cb (ctx s ! num) \<noteq> 0"
  shows "\<exists>s'. irq_handler b num s = Inr s'"
proof -
  from assms(2) have t: "num < TIMER_NUMOF b" by (simp add: valid_tim_def)
  have "\<forall>j\<in>set [0..<unat (channels (timer_config b ! num))]. valid_chan b num (int j)"
    using valid_chan_upt [OF assms(2)] by blast
  from irq_loop_total [OF assms(1,3) this] t show ?thesis
    by (auto simp: irq_handler_def exec_append exec.simps cortexm_isr_end_def)
qed

lemma irq_handler_disarmed:
  assumes "wf_sys b s" and "valid_tim b num" and "\<not> armed num i s"
    and "irq_handler b num s = Inr s'"
  shows "filter (is_callback_for i) (emitted s s') = [] \<and> \<not> armed num i s' \<and>
     (valid_chan b num i \<longrightarrow> \<not> event_pending num i s')"
proof -
  let ?n = "unat (channels (timer_config b ! num))"
  from assms(4) have
    "exec (map (\<lambda>j. irq_channel b num (int j)) [0..<?n] @ [cortexm_isr_end]) s = Inr s'"
    by (simp add: irq_handler_def split: if_splits)
  then obtain s2 where l: "exec (map (\<lambda>j. irq_channel b num (int j)) [0..<?n]) s = Inr s2"
    and e: "exec [cortexm_isr_end] s2 = Inr s'"
    by (rule exec_appendE)
  from e have s': "s' = s2\<lparr>trace := trace s2 @ [IsrEnd]\<rparr>"
    by (auto simp: exec.simps cortexm_isr_end_def)
  have va: "\<forall>j\<in>set [0..<?n]. valid_chan b num (int j)"
    using valid_chan_upt [OF assms(2)] by blast
  from irq_loop_disarmed [OF assms(1,3) va l] obtain new where
    a: "\<not> armed num i s2" and n: "trace s2 = trace s @ new" "filter (is_callback_for i) new = []"
    and p: "i \<in> int ` set [0..<?n] \<or> \<not> event_pending num i s \<longrightarrow> \<not> event_pending num i s2"
    by blast
  from n s' have "trace s' = trace s @ (new @ [IsrEnd])" by simp
  from emitted_append [OF this] n(2)
  have q: "filter (is_callback_for i) (emitted s s') = []" by simp
  have "\<not> event_pending num i s'" if "valid_chan b num i"
  proof -
    from that have "0 \<le> i" "nat i < ?n" by (simp_all add: valid_chan_iff)
    then have "int (nat i) = i" "nat i \<in> set [0..<?n]" by simp_all
    then have "i \<in> int ` set [0..<?n]" by (metis imageI)
    with p s' show ?thesis by (simp add: obs_defs)
  qed
  with q a s' show ?thesis by (simp add: obs_defs)
qed

lemma irq_prefix_disarmed:
  assumes "wf_sys b s" and "valid_tim b num" and "\<not> armed num i s"
    and "k \<le> unat (channels (timer_config b ! num))"
    and "exec (map (\<lambda>j. irq_channel b num (int j)) [0..<k]) s = Inr s'"
  shows "wf_sys b s' \<and> filter (is_callback_for i) (emitted s s') = [] \<and> \<not> armed num i s'"
proof -
  have "\<forall>j\<in>set [0..<k]. valid_chan b num (int j)"
    using valid_chan_upt [OF assms(2)] assms(4) by auto
  from irq_loop_disarmed [OF assms(1,3) this assms(5)] obtain new where
    w: "wf_sys b s'" and a: "\<not> armed num i s'"
    and n: "trace s' = trace s @ new" "filter (is_callback_for i) new = []"
    by blast
  from emitted_append [OF n(1)] n(2) a w show ?thesis by simp
qed

lemma irq_prefix_total:
  assumes "wf_sys b s" and "valid_tim b num" and "cb (ctx s ! num) \<noteq> 0"
    and "k \<le> unat (channels (timer_config b ! num))"
  shows "\<exists>s'. exec (map (\<lambda>j. irq_channel b num (int j)) [0..<k]) s = Inr s'"
proof -
  have "\<forall>j\<in>set [0..<k]. valid_chan b num (int j)"
    using valid_chan_upt [OF assms(2)] assms(4) by auto
  from irq_loop_total [OF assms(1,3) this] show ?thesis .
qed

section \<open>The claims\<close>

subsection \<open>C1: calls with an index out of range\<close>

text \<open>
  C1 (as amended). \<open>timer_init\<close> called with an instance index that is out of
  range returns the failure result \<open>-1\<close> and leaves the whole state (the
  Channel State Store, the registers, the interrupt controller, the trace of
  register stores) as it was. \<open>timer_set_absolute\<close>, \<open>timer_set_periodic\<close> and
  \<open>timer_clear\<close> called on a valid instance with a channel index that is at
  least the instance's channel count return \<open>-1\<close> and leave the whole state as
  it was. Nothing is said of the other calls with an instance out of range:
  \<open>timer_read\<close>, \<open>timer_start\<close> and \<open>timer_stop\<close> have no failure result, and
  no function but \<open>timer_init\<close> compares \<open>tim\<close> with \<open>TIMER_NUMOF\<close>.
\<close>

theorem C1_invalid_index_rejected:
  "(\<not> valid_tim b tim \<longrightarrow> timer_init b tim freq cb' arg' s = Inr (- 1, s)) \<and>
   (valid_tim b tim \<and> uint (channels (timer_config b ! tim)) \<le> chan \<longrightarrow>
      timer_set_absolute b tim chan v s = Inr (- 1, s) \<and>
      timer_set_periodic b tim chan v fl s = Inr (- 1, s) \<and>
      timer_clear b tim chan s = Inr (- 1, s))"
  by (simp add: valid_tim_def timer_init_def timer_set_absolute_def timer_set_periodic_def
      timer_clear_def)

text \<open>The amended C1 at the example board: instance 2 of 2, channel 3 of 3.\<close>

theorem C1_invalid_index_rejected_witness:
  "\<not> valid_tim demo_board 2 \<and>
   timer_init demo_board 2 1000000 1 0 demo_sys = Inr (- 1, demo_sys) \<and>
   valid_tim demo_board 0 \<and> uint (channels (timer_config demo_board ! 0)) \<le> 3 \<and>
   timer_set_absolute demo_board 0 3 5 demo_sys = Inr (- 1, demo_sys) \<and>
   timer_set_periodic demo_board 0 3 5 0 demo_sys = Inr (- 1, demo_sys) \<and>
   timer_clear demo_board 0 3 demo_sys = Inr (- 1, demo_sys)"
  using C1_invalid_index_rejected [of demo_board 2 1000000 1 0 demo_sys]
    C1_invalid_index_rejected [of demo_board 0 _ _ _ demo_sys 3 5 0]
  by (simp add: valid_tim_def demo_simps)

text \<open>
  C1 as it was stated fails: \<open>timer_set_absolute\<close> with instance index 2 on a
  board of two instances does not return \<open>-1\<close>. It reads
  \<open>timer_config[2].channels\<close> behind the end of the table.
\<close>

theorem C1_unchecked_instance_counterexample:
  "\<not> valid_tim demo_board 2 \<and>
   timer_set_absolute demo_board 2 0 5 demo_sys = Inl IndexOutOfBounds \<and>
   timer_set_absolute demo_board 2 0 5 demo_sys \<noteq> Inr (- 1, demo_sys)"
  by (simp add: valid_tim_def demo_simps timer_set_absolute_def)

subsection \<open>C2: the state after \<open>timer_set_absolute\<close>\<close>

text \<open>
  C2 at a failing input. On the example board, \<open>timer_set_periodic(0, 0, 100, 0)\<close>
  followed by \<open>timer_set_absolute(0, 0, 5)\<close>: both calls return 0, and after
  the second one channel 0 is armed and still periodic. \<open>timer_set_absolute\<close>
  sets the armed bit and never writes \<open>is_periodic\<close>, which
  \<open>timer_set_periodic\<close> and \<open>timer_clear\<close> both write next to \<open>flags\<close>.
\<close>

theorem C2_set_absolute_keeps_periodic:
  "returns 0 (periodic 0 0) (timer_set_periodic demo_board 0 0 100 0 demo_sys) \<and>
   returns 0 (armed 0 0)
     (and_then (timer_set_periodic demo_board 0 0 100 0 demo_sys)
        (timer_set_absolute demo_board 0 0 5)) \<and>
   returns 0 (periodic 0 0)
     (and_then (timer_set_periodic demo_board 0 0 100 0 demo_sys)
        (timer_set_absolute demo_board 0 0 5))"
  by code_simp

subsection \<open>C3: what \<open>timer_init\<close> overwrites\<close>

text \<open>
  C3 (as amended). Every call of \<open>timer_init\<close> that returns 0 was made on a
  valid instance and replaces the Callback Binding of that instance by the new
  callback and argument; the armed and periodic bitsets of the instance and the
  entries of all other instances are as they were before the call.
\<close>

theorem C3_init_replaces_binding_only:
  assumes "timer_init b tim freq cb' arg' s = Inr (0, s')"
  shows "valid_tim b tim \<and> tim < length (ctx s) \<and>
    ctx s' = (ctx s)[tim := (ctx s ! tim)\<lparr>cb := cb', arg := arg'\<rparr>] \<and>
    cb (ctx s' ! tim) = cb' \<and> arg (ctx s' ! tim) = arg' \<and>
    flags (ctx s' ! tim) = flags (ctx s ! tim) \<and>
    is_periodic (ctx s' ! tim) = is_periodic (ctx s ! tim)"
proof -
  from assms have t: "tim < TIMER_NUMOF b"
    by (auto simp: timer_init_def split: if_splits)
  from timer_init_ctx [OF assms t] t show ?thesis
    by (simp add: valid_tim_def)
qed

text \<open>The amended C3 at the example board: a first \<open>timer_init(0, 1000000, 7, 9)\<close>.\<close>

theorem C3_init_replaces_binding_only_witness:
  "\<exists>s'. timer_init demo_board 0 1000000 7 9 demo_sys = Inr (0, s') \<and>
     cb (ctx s' ! 0) = 7 \<and> arg (ctx s' ! 0) = 9 \<and>
     flags (ctx s' ! 0) = flags (ctx demo_sys ! 0) \<and>
     is_periodic (ctx s' ! 0) = is_periodic (ctx demo_sys ! 0)"
proof -
  have "wf_sys demo_board demo_sys" "0 < TIMER_NUMOF demo_board"
    by (simp_all add: wf_demo demo_simps)
  from timer_init_ok [OF this, of 4 1000000 7 9]
  obtain s' where "timer_init demo_board 0 1000000 7 9 demo_sys = Inr (0, s')"
    by auto
  from this C3_init_replaces_binding_only [OF this] show ?thesis by blast
qed

text \<open>
  C3 as it was stated fails: after \<open>timer_set_periodic(0, 0, 100, 0)\<close> a call of
  \<open>timer_init(0, 1000000, 7, 9)\<close> returns 0 and channel 0 is still armed and
  periodic.
\<close>

theorem C3_flags_survive_init_counterexample:
  "returns 0 (armed 0 0) (timer_set_periodic demo_board 0 0 100 0 demo_sys) \<and>
   returns 0 (armed 0 0)
     (and_then (timer_set_periodic demo_board 0 0 100 0 demo_sys)
        (timer_init demo_board 0 1000000 7 9)) \<and>
   returns 0 (periodic 0 0)
     (and_then (timer_set_periodic demo_board 0 0 100 0 demo_sys)
        (timer_init demo_board 0 1000000 7 9))"
  by code_simp

subsection \<open>C4: the Frequency Resolver\<close>

text \<open>
  C4. On a valid instance, for every requested frequency: if an exponent
  \<open>e\<close> in \<open>[0, 9]\<close> has \<open>16000000 / 2 ^ e\<close> equal to the frequency, the division
  is exact, no smaller exponent matches, the search loop ends with \<open>i = e\<close>
  and \<open>PRESCALER = e\<close>, and \<open>timer_init\<close> returns 0 with that prescaler
  programmed; if no exponent in \<open>[0, 9]\<close> matches, the loop ends with \<open>i = 10\<close>
  and nothing stored, and \<open>timer_init\<close> returns \<open>-1\<close>. In particular
  \<open>timer_init\<close> with 1000000 programs prescaler 4 and returns 0, and with
  1500000 it returns \<open>-1\<close>.
\<close>

theorem C4_frequency_resolver:
  assumes "wf_sys b s" and "valid_tim b tim"
  shows
    "(\<forall>e\<le>9. 16000000 div 2 ^ e = unat freq \<longrightarrow>
        unat freq * 2 ^ e = 16000000 \<and>
        (\<forall>e'<e. 16000000 div 2 ^ e' \<noteq> unat freq) \<and>
        (\<exists>s'. freq_loop b tim freq 0 F_TIMER s = Inr (e, s') \<and>
              hw_PRESCALER (periph s' ! tim) = of_nat e) \<and>
        (\<exists>s'. timer_init b tim freq cb' arg' s = Inr (0, s') \<and>
              hw_PRESCALER (periph s' ! tim) = of_nat e)) \<and>
     ((\<forall>e\<le>9. 16000000 div 2 ^ e \<noteq> unat freq) \<longrightarrow>
        freq_loop b tim freq 0 F_TIMER s = Inr (10, s) \<and>
        (\<exists>s'. timer_init b tim freq cb' arg' s = Inr (- 1, s'))) \<and>
     (\<exists>s'. timer_init b tim 1000000 cb' arg' s = Inr (0, s') \<and>
           hw_PRESCALER (periph s' ! tim) = 4) \<and>
     (\<exists>s'. timer_init b tim 1500000 cb' arg' s = Inr (- 1, s'))"
proof -
  from assms(2) have t: "tim < TIMER_NUMOF b" by (simp add: valid_tim_def)
  have m: "unat freq * 2 ^ e = 16000000 \<and>
        (\<forall>e'<e. 16000000 div 2 ^ e' \<noteq> unat freq) \<and>
        (\<exists>s'. freq_loop b tim freq 0 F_TIMER s = Inr (e, s') \<and>
              hw_PRESCALER (periph s' ! tim) = of_nat e) \<and>
        (\<exists>s'. timer_init b tim freq cb' arg' s = Inr (0, s') \<and>
              hw_PRESCALER (periph s' ! tim) = of_nat e)"
    if "e \<le> 9" "16000000 div 2 ^ e = unat freq" for e
    using freq_match(1) [OF that, of b tim s] freq_match(2,3) [OF that] prescaler_write_ok [OF assms(1) t, of e]
      timer_init_ok [OF assms(1) t that, of cb' arg']
    by simp
  have n: "freq_loop b tim freq 0 F_TIMER s = Inr (10, s) \<and>
        (\<exists>s'. timer_init b tim freq cb' arg' s = Inr (- 1, s'))"
    if "\<forall>e\<le>9. 16000000 div 2 ^ e \<noteq> unat freq"
    using freq_no_match [OF that] timer_init_fail [OF assms(1) t that] by simp
  have a: "\<exists>s'. timer_init b tim 1000000 cb' arg' s = Inr (0, s') \<and>
           hw_PRESCALER (periph s' ! tim) = 4"
    using timer_init_ok [OF assms(1) t, of 4 1000000 cb' arg'] by simp
  have c: "\<exists>s'. timer_init b tim 1500000 cb' arg' s = Inr (- 1, s')"
    using timer_init_fail [OF assms(1) t no_match_1500000] .
  from m n a c show ?thesis by blast
qed

text \<open>C4 at the example board, for the frequencies 1000000 and 1500000.\<close>

theorem C4_frequency_resolver_witness:
  "wf_sys demo_board demo_sys \<and> valid_tim demo_board 0 \<and>
   (4::nat) \<le> 9 \<and> 16000000 div 2 ^ 4 = unat (1000000 :: u32) \<and>
   (\<exists>s'. timer_init demo_board 0 1000000 1 2 demo_sys = Inr (0, s') \<and>
         hw_PRESCALER (periph s' ! 0) = 4) \<and>
   16000000 div 2 ^ 3 \<noteq> unat (1500000 :: u32) \<and>
   (\<exists>s'. timer_init demo_board 0 1500000 1 2 demo_sys = Inr (- 1, s'))"
proof -
  have h: "wf_sys demo_board demo_sys" "valid_tim demo_board 0"
    by (simp_all add: wf_demo valid_tim_def demo_simps)
  have e: "(4::nat) \<le> 9" "16000000 div 2 ^ 4 = unat (1000000 :: u32)"
    by simp_all
  have n: "16000000 div 2 ^ 3 \<noteq> unat (1500000 :: u32)" by simp
  from C4_frequency_resolver [OF h, of 1000000 1 2] C4_frequency_resolver [OF h, of 1500000 1 2]
    h e n no_match_1500000
  show ?thesis by blast
qed

subsection \<open>C5: a one-shot arm on a channel that was periodic\<close>

text \<open>
  C5 at a failing input. On the example board, after
  \<open>timer_init(0, 1000000, 7, 9)\<close> and \<open>timer_set_periodic(0, 0, 100, 0)\<close>, the
  one-shot arm \<open>timer_set_absolute(0, 0, 5)\<close> returns 0 and leaves channel 0
  armed and still periodic. One compare match on the channel and one run of
  \<open>irq_handler\<close> then call the callback once with channel index 0, and
  \<open>irq_handler\<close> returns with the channel still armed and its interrupt source
  still enabled: the channel is not idle, the handler stored to
  \<open>EVENTS_COMPARE[0]\<close> only, and a second match calls the callback a second
  time. The dispatcher takes the one-shot branch under the test of
  \<open>is_periodic\<close>, which \<open>timer_set_absolute\<close> never writes. For contrast, the
  same arm without the \<open>timer_set_periodic\<close> before it: the handler stores to
  \<open>EVENTS_COMPARE[0]\<close> and to \<open>INTENCLR\<close>, then calls the callback, and
  returns with the channel idle and its interrupt source disabled.
\<close>

theorem C5_one_shot_arm_stays_armed:
  "returns 0 (armed 0 0) demo_rearm \<and> returns 0 (periodic 0 0) demo_rearm \<and>
   ends (callbacks_for 0 [Callback 7 9 0]) (and_then demo_rearm match_and_dispatch) \<and>
   ends (armed 0 0) (and_then demo_rearm match_and_dispatch) \<and>
   ends (irq_enabled 0 0) (and_then demo_rearm match_and_dispatch) \<and>
   \<not> ends (idle 0 0) (and_then demo_rearm match_and_dispatch) \<and>
   ends (trace_ends_with [Write 0 (EVENTS_COMPARE 0) 0, Callback 7 9 0, IsrEnd])
     (and_then demo_rearm match_and_dispatch) \<and>
   ends (callbacks_for 0 [Callback 7 9 0, Callback 7 9 0])
     (and_then demo_rearm (exec [match_and_dispatch, match_and_dispatch])) \<and>
   returns 0 (armed 0 0) demo_arm \<and> \<not> returns 0 (periodic 0 0) demo_arm \<and>
   ends (callbacks_for 0 [Callback 7 9 0]) (and_then demo_arm match_and_dispatch) \<and>
   ends (idle 0 0) (and_then demo_arm match_and_dispatch) \<and>
   \<not> ends (irq_enabled 0 0) (and_then demo_arm match_and_dispatch) \<and>
   ends (trace_ends_with
      [Write 0 (EVENTS_COMPARE 0) 0, Write 0 INTENCLR 0x10000, Callback 7 9 0, IsrEnd])
     (and_then demo_arm match_and_dispatch)"
  by code_simp

subsection \<open>C6: no callback for a disarmed channel\<close>

text \<open>
  C6. On a valid instance, for every channel index \<open>i\<close> whose armed bit is
  clear: the dispatcher's step for a valid channel \<open>i\<close> returns, whatever the
  callback binding, having stored 0 to the channel's event register if the
  event was pending and nothing else, with the event no longer pending and the
  armed bit clear; after any number of completed rounds of the dispatcher's loop
  the trace holds no call of the callback for \<open>i\<close> and the armed bit is clear;
  every run of \<open>irq_handler\<close> that returns has made no call of the callback
  for \<open>i\<close>, leaves the armed bit clear and, for a valid channel, the compare
  event no longer pending; and \<open>irq_handler\<close> returns if the bound callback is
  not the null pointer (with a null binding, the round of another channel that
  is armed with its event pending calls through the null pointer). So after
  \<open>timer_clear\<close> on a valid channel a compare event that the hardware latches
  afterwards is cleared by the next run of \<open>irq_handler\<close> with no call of the
  callback for that channel.
\<close>

theorem C6_no_callback_when_disarmed:
  assumes "wf_sys b s" and "valid_tim b num"
  shows
   "(\<not> armed num i s \<longrightarrow>
      (valid_chan b num i \<longrightarrow>
        (\<exists>s1. irq_channel b num i s = Inr s1 \<and>
           emitted s s1 =
             (if event_pending num i s then [Write num (EVENTS_COMPARE i) 0] else []) \<and>
           \<not> event_pending num i s1 \<and> \<not> armed num i s1)) \<and>
      (\<forall>k s'. k \<le> unat (channels (timer_config b ! num)) \<longrightarrow>
          exec (map (\<lambda>j. irq_channel b num (int j)) [0..<k]) s = Inr s' \<longrightarrow>
          wf_sys b s' \<and> filter (is_callback_for i) (emitted s s') = [] \<and>
          \<not> armed num i s') \<and>
      (\<forall>s'. irq_handler b num s = Inr s' \<longrightarrow>
          filter (is_callback_for i) (emitted s s') = [] \<and>
          \<not> armed num i s' \<and> (valid_chan b num i \<longrightarrow> \<not> event_pending num i s')) \<and>
      (cb (ctx s ! num) \<noteq> 0 \<longrightarrow> (\<exists>s'. irq_handler b num s = Inr s'))) \<and>
    (valid_chan b num i \<longrightarrow>
      (\<exists>s1. timer_clear b num i s = Inr (0, s1) \<and>
          event_pending num i (hw_compare_match num i s1) \<and>
          (\<forall>s'. irq_handler b num (hw_compare_match num i s1) = Inr s' \<longrightarrow>
             filter (is_callback_for i) (emitted (hw_compare_match num i s1) s') = [] \<and>
             \<not> event_pending num i s' \<and> \<not> armed num i s') \<and>
          (cb (ctx s ! num) \<noteq> 0 \<longrightarrow>
             (\<exists>s'. irq_handler b num (hw_compare_match num i s1) = Inr s'))))"
proof (intro conjI impI allI)
  assume na: "\<not> armed num i s" and vc: "valid_chan b num i"
  from irq_channel_disarmed_returns [OF assms(1) vc na] obtain s1 where
    s1: "irq_channel b num i s = Inr s1"
      "emitted s s1 = (if event_pending num i s then [Write num (EVENTS_COMPARE i) 0] else [])"
    by blast
  from irq_channel_disarmed [OF assms(1) vc na s1(1)] s1
  show "\<exists>s1. irq_channel b num i s = Inr s1 \<and>
           emitted s s1 =
             (if event_pending num i s then [Write num (EVENTS_COMPARE i) 0] else []) \<and>
           \<not> event_pending num i s1 \<and> \<not> armed num i s1"
    by blast
next
  fix k s'
  assume na: "\<not> armed num i s" and k: "k \<le> unat (channels (timer_config b ! num))"
    and e: "exec (map (\<lambda>j. irq_channel b num (int j)) [0..<k]) s = Inr s'"
  from irq_prefix_disarmed [OF assms na k e]
  show "wf_sys b s'" "filter (is_callback_for i) (emitted s s') = []" "\<not> armed num i s'"
    by simp_all
next
  fix s'
  assume na: "\<not> armed num i s" and h: "irq_handler b num s = Inr s'"
  note d = irq_handler_disarmed [OF assms na h]
  from d show "filter (is_callback_for i) (emitted s s') = []" by simp
  from d show "\<not> armed num i s'" by simp
  assume "valid_chan b num i"
  with d show "\<not> event_pending num i s'" by simp
next
  assume "cb (ctx s ! num) \<noteq> 0"
  from irq_handler_total [OF assms this] show "\<exists>s'. irq_handler b num s = Inr s'" .
next
  assume vc: "valid_chan b num i"
  note v = valid_chanD [OF assms(1) vc] valid_chan_nat [OF assms(1) vc]
  from timer_clear_ok [OF assms(1) vc] obtain s1 where
    s1: "timer_clear b num i s = Inr (0, s1)" and
    c1: "ctx s1 = (ctx s)[num := (ctx s ! num)
         \<lparr>flags := flags (ctx s ! num) AND NOT (2 ^ nat i),
          is_periodic := is_periodic (ctx s ! num) AND NOT (2 ^ nat i)\<rparr>]" and
    p1: "periph s1 = (periph s)[num := (periph s ! num)
         \<lparr>hw_INTEN := hw_INTEN (periph s ! num) AND NOT (2 ^ (TIMER_INTENSET_COMPARE0_Pos + nat i)),
          hw_SHORTS := hw_SHORTS (periph s ! num) AND NOT (2 ^ nat i)\<rparr>]"
    by simp
  have w1: "wf_sys b s1"
    by (rule wf_sys_cong [OF assms(1)]) (use v(3) in \<open>simp_all add: c1 p1 nth_list_update\<close>)
  have a1: "\<not> armed num i s1"
    using v by (simp add: obs_defs c1 bit_simps)
  have b1: "cb (ctx s1 ! num) = cb (ctx s ! num)"
    using v by (simp add: c1)
  let ?m = "hw_compare_match num i s1"
  note m = hw_compare_match_props [OF w1 vc]
  from m(3) [of i] a1 have am: "\<not> armed num i ?m" by simp
  have d: "\<forall>s'. irq_handler b num ?m = Inr s' \<longrightarrow>
             filter (is_callback_for i) (emitted ?m s') = [] \<and>
             \<not> event_pending num i s' \<and> \<not> armed num i s'"
    using irq_handler_disarmed [OF m(1) assms(2) am] vc by blast
  have t: "cb (ctx s ! num) \<noteq> 0 \<longrightarrow> (\<exists>s'. irq_handler b num ?m = Inr s')"
    using irq_handler_total [OF m(1) assms(2)] m(5) b1 by simp
  from s1 m(2) d t
  show "\<exists>s1. timer_clear b num i s = Inr (0, s1) \<and>
          event_pending num i (hw_compare_match num i s1) \<and>
          (\<forall>s'. irq_handler b num (hw_compare_match num i s1) = Inr s' \<longrightarrow>
             filter (is_callback_for i) (emitted (hw_compare_match num i s1) s') = [] \<and>
             \<not> event_pending num i s' \<and> \<not> armed num i s') \<and>
          (cb (ctx s ! num) \<noteq> 0 \<longrightarrow>
             (\<exists>s'. irq_handler b num (hw_compare_match num i s1) = Inr s'))"
    by blast
qed

text \<open>
  C6 at the example board, in the state with the callback binding \<open>(7, 9)\<close>
  and channel 1 armed with its event pending: channel 0 is idle, and the run of
  \<open>irq_handler\<close> makes no call of the callback for it; channel 1, cleared and
  with a compare event latched afterwards, gets no call either.
\<close>

theorem C6_no_callback_when_disarmed_witness:
  "wf_sys demo_board demo_oneshot \<and> valid_tim demo_board 0 \<and>
   valid_chan demo_board 0 0 \<and> valid_chan demo_board 0 1 \<and>
   \<not> armed 0 0 demo_oneshot \<and> cb (ctx demo_oneshot ! 0) \<noteq> 0 \<and>
   (\<exists>s1. irq_channel demo_board 0 0 demo_oneshot = Inr s1 \<and> emitted demo_oneshot s1 = []) \<and>
   (\<exists>s'. exec (map (\<lambda>j. irq_channel demo_board 0 (int j)) [0..<2]) demo_oneshot = Inr s' \<and>
      filter (is_callback_for 0) (emitted demo_oneshot s') = []) \<and>
   (\<exists>s'. irq_handler demo_board 0 demo_oneshot = Inr s' \<and>
      filter (is_callback_for 0) (emitted demo_oneshot s') = [] \<and> \<not> event_pending 0 0 s') \<and>
   (\<exists>s1 s'. timer_clear demo_board 0 1 demo_oneshot = Inr (0, s1) \<and>
      event_pending 0 1 (hw_compare_match 0 1 s1) \<and>
      irq_handler demo_board 0 (hw_compare_match 0 1 s1) = Inr s' \<and>
      filter (is_callback_for 1) (emitted (hw_compare_match 0 1 s1) s') = [] \<and>
      \<not> event_pending 0 1 s')"
proof -
  note o = demo_oneshot_props and v = demo_valid
  have v0: "valid_chan demo_board 0 0"
    by (simp add: valid_chan_def valid_tim_def demo_simps)
  have n: "\<not> armed 0 0 demo_oneshot" "\<not> event_pending 0 0 demo_oneshot"
    by (simp_all add: demo_oneshot_def obs_defs)
  have c: "cb (ctx demo_oneshot ! 0) \<noteq> 0" by (simp add: demo_oneshot_def)
  have k: "(2::nat) \<le> unat (channels (timer_config demo_board ! 0))"
    by (simp add: demo_simps)
  note T = C6_no_callback_when_disarmed [OF o(1) v(1), of 0, THEN conjunct1, THEN mp, OF n(1)]
  note U = C6_no_callback_when_disarmed [OF o(1) v(1), of 1, THEN conjunct2, THEN mp, OF v(2)]
  from T v0 n(2)
  have a1: "\<exists>s1. irq_channel demo_board 0 0 demo_oneshot = Inr s1 \<and> emitted demo_oneshot s1 = []"
    by auto
  from irq_prefix_total [OF o(1) v(1) c k] obtain s2 where
    s2: "exec (map (\<lambda>j. irq_channel demo_board 0 (int j)) [0..<2]) demo_oneshot = Inr s2"
    by blast
  from T k s2 have "filter (is_callback_for 0) (emitted demo_oneshot s2) = []"
    by blast
  with s2
  have a2: "\<exists>s'. exec (map (\<lambda>j. irq_channel demo_board 0 (int j)) [0..<2]) demo_oneshot = Inr s' \<and>
      filter (is_callback_for 0) (emitted demo_oneshot s') = []"
    by blast
  from T c obtain s3 where s3: "irq_handler demo_board 0 demo_oneshot = Inr s3"
    by blast
  from T s3 v0 have "filter (is_callback_for 0) (emitted demo_oneshot s3) = [] \<and>
      \<not> event_pending 0 0 s3"
    by blast
  with s3
  have a3: "\<exists>s'. irq_handler demo_board 0 demo_oneshot = Inr s' \<and>
      filter (is_callback_for 0) (emitted demo_oneshot s') = [] \<and> \<not> event_pending 0 0 s'"
    by blast
  from U c obtain s1 s4 where
    s4: "timer_clear demo_board 0 1 demo_oneshot = Inr (0, s1)"
      "event_pending 0 1 (hw_compare_match 0 1 s1)"
      "irq_handler demo_board 0 (hw_compare_match 0 1 s1) = Inr s4"
      "\<forall>s'. irq_handler demo_board 0 (hw_compare_match 0 1 s1) = Inr s' \<longrightarrow>
         filter (is_callback_for 1) (emitted (hw_compare_match 0 1 s1) s') = [] \<and>
         \<not> event_pending 0 1 s' \<and> \<not> armed 0 1 s'"
    by blast
  then
  have a4: "\<exists>s1 s'. timer_clear demo_board 0 1 demo_oneshot = Inr (0, s1) \<and>
      event_pending 0 1 (hw_compare_match 0 1 s1) \<and>
      irq_handler demo_board 0 (hw_compare_match 0 1 s1) = Inr s' \<and>
      filter (is_callback_for 1) (emitted (hw_compare_match 0 1 s1) s') = [] \<and>
      \<not> event_pending 0 1 s'"
    by blast
  from o(1) v(1,2) v0 n(1) c a1 a2 a3 a4 show ?thesis by blast
qed

subsection \<open>C7: the invariant\<close>

text \<open>
  C7. The invariant that a channel's periodic bit is set only if its armed bit
  is set holds in the zero-initialized state at process start, and every
  operation that returns from a state with the invariant returns a state with
  it: \<open>timer_init\<close>, \<open>timer_set_absolute\<close>, \<open>timer_set_periodic\<close>,
  \<open>timer_clear\<close>, \<open>timer_read\<close>, \<open>timer_start\<close>, \<open>timer_stop\<close>, each step of
  the dispatcher for one channel, and \<open>irq_handler\<close> as a whole, with any
  arguments.
\<close>

theorem C7_periodic_only_if_armed:
  "ctx_inv (sys_init b n) \<and>
   (ctx_inv s \<longrightarrow>
     (\<forall>r s'. timer_init b tim freq cb' arg' s = Inr (r, s') \<longrightarrow> ctx_inv s') \<and>
     (\<forall>r s'. timer_set_absolute b tim chan v s = Inr (r, s') \<longrightarrow> ctx_inv s') \<and>
     (\<forall>r s'. timer_set_periodic b tim chan v fl s = Inr (r, s') \<longrightarrow> ctx_inv s') \<and>
     (\<forall>r s'. timer_clear b tim chan s = Inr (r, s') \<longrightarrow> ctx_inv s') \<and>
     (\<forall>r s'. timer_read b tim s = Inr (r, s') \<longrightarrow> ctx_inv s') \<and>
     (\<forall>s'. timer_start b tim s = Inr s' \<longrightarrow> ctx_inv s') \<and>
     (\<forall>s'. timer_stop b tim s = Inr s' \<longrightarrow> ctx_inv s') \<and>
     (\<forall>s'. irq_channel b tim chan s = Inr s' \<longrightarrow> ctx_inv s') \<and>
     (\<forall>s'. irq_handler b tim s = Inr s' \<longrightarrow> ctx_inv s'))"
  by (intro conjI impI allI;
      (rule ctx_inv_sys_init
       | erule (1) inv_timer_init inv_set_absolute inv_set_periodic inv_clear
           inv_read_start_stop inv_irq_channel inv_irq_handler))

text \<open>
  C7 at the example board: every operation returns from the state at process
  start, and the dispatcher from the state with the pending event, with the
  invariant.
\<close>

theorem C7_periodic_only_if_armed_witness:
  "ctx_inv demo_sys \<and> ctx_inv demo_oneshot \<and>
   (\<exists>s'. timer_init demo_board 0 1000000 7 9 demo_sys = Inr (0, s') \<and> ctx_inv s') \<and>
   (\<exists>s'. timer_set_absolute demo_board 0 1 5 demo_sys = Inr (0, s') \<and> ctx_inv s') \<and>
   (\<exists>s'. timer_set_periodic demo_board 0 1 5 0 demo_sys = Inr (0, s') \<and> ctx_inv s') \<and>
   (\<exists>s'. timer_clear demo_board 0 1 demo_sys = Inr (0, s') \<and> ctx_inv s') \<and>
   (\<exists>r s'. timer_read demo_board 0 demo_sys = Inr (r, s') \<and> ctx_inv s') \<and>
   (\<exists>s'. timer_start demo_board 0 demo_sys = Inr s' \<and> ctx_inv s') \<and>
   (\<exists>s'. timer_stop demo_board 0 demo_sys = Inr s' \<and> ctx_inv s') \<and>
   (\<exists>s'. irq_channel demo_board 0 1 demo_oneshot = Inr s' \<and> ctx_inv s') \<and>
   (\<exists>s'. irq_handler demo_board 0 demo_oneshot = Inr s' \<and> ctx_inv s')"
proof -
  note w = wf_demo and v = demo_valid and o = demo_oneshot_props
  note T = C7_periodic_only_if_armed [where b = demo_board and n = 4 and s = demo_sys
      and tim = 0 and freq = 1000000 and cb' = 7 and arg' = 9 and chan = 1 and v = 5 and fl = 0,
      THEN conjunct2, THEN mp, OF ctx_inv_demo]
  note U = C7_periodic_only_if_armed [where b = demo_board and n = 4 and s = demo_oneshot
      and tim = 0 and freq = 1000000 and cb' = 7 and arg' = 9 and chan = 1 and v = 5 and fl = 0,
      THEN conjunct2, THEN mp, OF o(2)]
  from timer_init_ok [OF w v(3), of 4 1000000 7 9]
  have 1: "\<exists>s'. timer_init demo_board 0 1000000 7 9 demo_sys = Inr (0, s')" by auto
  from timer_set_absolute_ok [OF w v(2), of 5]
  have 2: "\<exists>s'. timer_set_absolute demo_board 0 1 5 demo_sys = Inr (0, s')" by blast
  note 3 = api_total(1) [OF w v(2), of 5 0]
  from timer_clear_ok [OF w v(2)]
  have 4: "\<exists>s'. timer_clear demo_board 0 1 demo_sys = Inr (0, s')" by blast
  note 5 = api_total(2-4) [OF w v(1)]
  have c: "cb (ctx demo_oneshot ! 0) \<noteq> 0" by (simp add: demo_oneshot_def)
  note 6 = irq_channel_total [OF o(1) v(2) c]
  note 7 = irq_handler_total [OF o(1) v(1) c]
  from T 1 have a1: "\<exists>s'. timer_init demo_board 0 1000000 7 9 demo_sys = Inr (0, s') \<and> ctx_inv s'"
    by blast
  from T 2 have a2: "\<exists>s'. timer_set_absolute demo_board 0 1 5 demo_sys = Inr (0, s') \<and> ctx_inv s'"
    by blast
  from T 3 have a3: "\<exists>s'. timer_set_periodic demo_board 0 1 5 0 demo_sys = Inr (0, s') \<and> ctx_inv s'"
    by blast
  from T 4 have a4: "\<exists>s'. timer_clear demo_board 0 1 demo_sys = Inr (0, s') \<and> ctx_inv s'"
    by blast
  from T 5(1) have a5: "\<exists>r s'. timer_read demo_board 0 demo_sys = Inr (r, s') \<and> ctx_inv s'"
    by blast
  from T 5(2) have a6: "\<exists>s'. timer_start demo_board 0 demo_sys = Inr s' \<and> ctx_inv s'"
    by blast
  from T 5(3) have a7: "\<exists>s'. timer_stop demo_board 0 demo_sys = Inr s' \<and> ctx_inv s'"
    by blast
  from U 6 have a8: "\<exists>s'. irq_channel demo_board 0 1 demo_oneshot = Inr s' \<and> ctx_inv s'"
    by blast
  from U 7 have a9: "\<exists>s'. irq_handler demo_board 0 demo_oneshot = Inr s' \<and> ctx_inv s'"
    by blast
  from ctx_inv_demo o(2) a1 a2 a3 a4 a5 a6 a7 a8 a9 show ?thesis by blast
qed

subsection \<open>C8: \<open>timer_set_periodic\<close> stops and restarts the timer\<close>

text \<open>
  C8. On a valid channel \<open>timer_set_periodic\<close> returns 0. Its stores are, in
  this order: the stop task, the compare value, the reset-on-match short if that
  flag is given, the clear task if reset-on-set is given, the event flag, the
  interrupt enable, and the start task unless \<open>TIM_FLAG_SET_STOPPED\<close> is
  given. With \<open>TIM_FLAG_SET_STOPPED\<close> the timer is left stopped and no start
  task is among the stores; without it the start task is the last store and the
  timer runs. The channel is armed and periodic and its interrupt source is
  enabled.
\<close>

theorem C8_set_periodic_restart:
  assumes "wf_sys b s" and "valid_chan b tim chan"
  shows "\<exists>s'. timer_set_periodic b tim chan v fl s = Inr (0, s') \<and>
     emitted s s' =
       [Write tim TASKS_STOP 1, Write tim (CC chan) v]
       @ (if fl AND TIM_FLAG_RESET_ON_MATCH \<noteq> 0
          then [Write tim SHORTS (hw_SHORTS (periph s ! tim) OR push_bit (nat chan) 1)] else [])
       @ (if fl AND TIM_FLAG_RESET_ON_SET \<noteq> 0 then [Write tim TASKS_CLEAR 1] else [])
       @ [Write tim (EVENTS_COMPARE chan) 0,
          Write tim INTENSET (push_bit (nat chan) TIMER_INTENSET_COMPARE0_Msk)]
       @ (if fl AND TIM_FLAG_SET_STOPPED \<noteq> 0 then [] else [Write tim TASKS_START 1]) \<and>
     (fl AND TIM_FLAG_SET_STOPPED \<noteq> 0 \<longrightarrow>
        \<not> timer_running tim s' \<and> Write tim TASKS_START 1 \<notin> set (emitted s s')) \<and>
     (fl AND TIM_FLAG_SET_STOPPED = 0 \<longrightarrow>
        timer_running tim s' \<and> last (emitted s s') = Write tim TASKS_START 1) \<and>
     armed tim chan s' \<and> periodic tim chan s' \<and> irq_enabled tim chan s'"
  using valid_chanD [OF assms] valid_chan_nat [OF assms]
  unfolding timer_set_periodic_def
  by (simp add: stmt_defs obs_defs msk_shift bit_simps)

text \<open>
  C8 at the example board: \<open>timer_set_periodic(0, 1, 100, flags)\<close> with reset on
  match and leave stopped, and with no flag.
\<close>

theorem C8_set_periodic_restart_witness:
  "wf_sys demo_board demo_sys \<and> valid_chan demo_board 0 1 \<and>
   (TIM_FLAG_RESET_ON_MATCH OR TIM_FLAG_SET_STOPPED) AND TIM_FLAG_SET_STOPPED \<noteq> 0 \<and>
   (\<exists>s'. timer_set_periodic demo_board 0 1 100
           (TIM_FLAG_RESET_ON_MATCH OR TIM_FLAG_SET_STOPPED) demo_sys = Inr (0, s') \<and>
      \<not> timer_running 0 s' \<and> Write 0 TASKS_START 1 \<notin> set (emitted demo_sys s')) \<and>
   (0 :: u8) AND TIM_FLAG_SET_STOPPED = 0 \<and>
   (\<exists>s'. timer_set_periodic demo_board 0 1 100 0 demo_sys = Inr (0, s') \<and>
      timer_running 0 s' \<and> last (emitted demo_sys s') = Write 0 TASKS_START 1)"
proof -
  have f: "(TIM_FLAG_RESET_ON_MATCH OR TIM_FLAG_SET_STOPPED) AND TIM_FLAG_SET_STOPPED \<noteq> 0"
    "(0 :: u8) AND TIM_FLAG_SET_STOPPED = 0"
    by (simp_all add: TIM_FLAG_RESET_ON_MATCH_def TIM_FLAG_SET_STOPPED_def)
  from C8_set_periodic_restart [OF wf_demo demo_valid(2), of 100
      "TIM_FLAG_RESET_ON_MATCH OR TIM_FLAG_SET_STOPPED"] f(1)
  have a: "\<exists>s'. timer_set_periodic demo_board 0 1 100
           (TIM_FLAG_RESET_ON_MATCH OR TIM_FLAG_SET_STOPPED) demo_sys = Inr (0, s') \<and>
      \<not> timer_running 0 s' \<and> Write 0 TASKS_START 1 \<notin> set (emitted demo_sys s')"
    by blast
  from C8_set_periodic_restart [OF wf_demo demo_valid(2), of 100 0] f(2)
  have b: "\<exists>s'. timer_set_periodic demo_board 0 1 100 0 demo_sys = Inr (0, s') \<and>
      timer_running 0 s' \<and> last (emitted demo_sys s') = Write 0 TASKS_START 1"
    by blast
  from a b f wf_demo demo_valid(2) show ?thesis by blast
qed

subsection \<open>C9: \<open>timer_clear\<close> is idempotent\<close>

text \<open>
  C9. On a valid channel \<open>timer_clear\<close> returns 0 and leaves the channel
  idle: armed and periodic bits clear, interrupt source disabled, reset-on-match
  short clear. If the channel was idle before (in a state with the invariant of
  the data model), the Channel State Store is unchanged. A second
  \<open>timer_clear\<close> returns 0 as well and changes neither the Channel State
  Store nor the registers nor the interrupt controller.
\<close>

theorem C9_clear_idempotent:
  assumes "wf_sys b s" and "valid_chan b tim chan"
  shows "\<exists>s1. timer_clear b tim chan s = Inr (0, s1) \<and>
     \<not> armed tim chan s1 \<and> \<not> periodic tim chan s1 \<and>
     \<not> irq_enabled tim chan s1 \<and> \<not> short_enabled tim chan s1 \<and>
     (ctx_inv s \<and> \<not> armed tim chan s \<longrightarrow> ctx s1 = ctx s) \<and>
     (\<exists>s2. timer_clear b tim chan s1 = Inr (0, s2) \<and>
        ctx s2 = ctx s1 \<and> periph s2 = periph s1 \<and> nvic s2 = nvic s1)"
proof -
  note v = valid_chanD [OF assms] valid_chan_nat [OF assms]
  let ?n = "nat chan"
  obtain s1 where s1: "timer_clear b tim chan s = Inr (0, s1)" and
    c1: "ctx s1 = (ctx s)[tim := (ctx s ! tim)
         \<lparr>flags := flags (ctx s ! tim) AND NOT (2 ^ ?n),
          is_periodic := is_periodic (ctx s ! tim) AND NOT (2 ^ ?n)\<rparr>]" and
    p1: "periph s1 = (periph s)[tim := (periph s ! tim)
         \<lparr>hw_INTEN := hw_INTEN (periph s ! tim) AND NOT (2 ^ (TIMER_INTENSET_COMPARE0_Pos + ?n)),
          hw_SHORTS := hw_SHORTS (periph s ! tim) AND NOT (2 ^ ?n)\<rparr>]" and
    n1: "nvic s1 = nvic s"
    using timer_clear_ok [OF assms] by simp
  have obs: "\<not> armed tim chan s1 \<and> \<not> periodic tim chan s1 \<and>
     \<not> irq_enabled tim chan s1 \<and> \<not> short_enabled tim chan s1"
    using v by (simp add: obs_defs c1 p1 bit_simps)
  have idle: "ctx s1 = ctx s" if "ctx_inv s" "\<not> armed tim chan s"
  proof -
    from that(2) v have f: "\<not> bit (flags (ctx s ! tim)) ?n" by (simp add: armed_def)
    from that(1) v(2) v(11) have "periodic tim (int ?n) s \<longrightarrow> armed tim (int ?n) s"
      unfolding ctx_inv_def by blast
    with f v have p: "\<not> bit (is_periodic (ctx s ! tim)) ?n"
      by (simp add: armed_def periodic_def)
    show ?thesis unfolding c1 by (simp add: and_not_exp_id [OF f] and_not_exp_id [OF p])
  qed
  have w1: "wf_sys b s1"
    by (rule wf_sys_cong [OF assms(1)]) (use v(3) in \<open>simp_all add: c1 p1 nth_list_update\<close>)
  from timer_clear_ok [OF w1 assms(2)] v
  have again: "\<exists>s2. timer_clear b tim chan s1 = Inr (0, s2) \<and>
        ctx s2 = ctx s1 \<and> periph s2 = periph s1 \<and> nvic s2 = nvic s1"
    by (simp add: c1 p1 n1)
  from s1 obs idle again show ?thesis by blast
qed

text \<open>C9 at the example board: channel 1 of instance 0, idle at process start.\<close>

theorem C9_clear_idempotent_witness:
  "wf_sys demo_board demo_sys \<and> valid_chan demo_board 0 1 \<and>
   ctx_inv demo_sys \<and> \<not> armed 0 1 demo_sys \<and>
   (\<exists>s1. timer_clear demo_board 0 1 demo_sys = Inr (0, s1) \<and> ctx s1 = ctx demo_sys \<and>
      (\<exists>s2. timer_clear demo_board 0 1 s1 = Inr (0, s2) \<and>
         ctx s2 = ctx s1 \<and> periph s2 = periph s1 \<and> nvic s2 = nvic s1))"
proof -
  have n: "\<not> armed 0 1 demo_sys" by (simp add: demo_simps obs_defs)
  from C9_clear_idempotent [OF wf_demo demo_valid(2)] ctx_inv_demo n
  have "\<exists>s1. timer_clear demo_board 0 1 demo_sys = Inr (0, s1) \<and> ctx s1 = ctx demo_sys \<and>
      (\<exists>s2. timer_clear demo_board 0 1 s1 = Inr (0, s2) \<and>
         ctx s2 = ctx s1 \<and> periph s2 = periph s1 \<and> nvic s2 = nvic s1)"
    by blast
  with wf_demo demo_valid(2) ctx_inv_demo n show ?thesis by blast
qed

subsection \<open>C10: negative channel indices\<close>

text \<open>
  C10. The channel check of \<open>timer_set_absolute\<close>, \<open>timer_set_periodic\<close> and
  \<open>timer_clear\<close> bounds the channel from above only: for a negative channel
  index on a valid instance the comparison \<open>chan >= channels\<close> is false, the
  call does not return \<open>-1\<close> and goes on to the shift by the negative channel
  index, which C leaves undefined.
\<close>

theorem C10_negative_channel_not_rejected:
  assumes "wf_sys b s" and "valid_tim b tim" and "chan < 0"
  shows "\<not> uint (channels (timer_config b ! tim)) \<le> chan \<and>
    timer_set_absolute b tim chan v s = Inl ShiftOutOfRange \<and>
    timer_set_periodic b tim chan v fl s = Inl ShiftOutOfRange \<and>
    timer_clear b tim chan s = Inl ShiftOutOfRange \<and>
    timer_set_absolute b tim chan v s \<noteq> Inr (- 1, s) \<and>
    timer_set_periodic b tim chan v fl s \<noteq> Inr (- 1, s) \<and>
    timer_clear b tim chan s \<noteq> Inr (- 1, s)"
proof -
  from assms(2) have t: "tim < TIMER_NUMOF b" by (simp add: valid_tim_def)
  note w = wf_sysD(1,2) [OF assms(1) t]
  have g: "\<not> uint (channels (timer_config b ! tim)) \<le> chan"
  proof -
    have "0 \<le> uint (channels (timer_config b ! tim))" by simp
    with assms(3) show ?thesis by linarith
  qed
  have sh: "shl_int1 chan = None" "shl_ulong m chan = None" for m
    using assms(3) by (simp_all add: shl_int1_def shl_ulong_def)
  have a: "timer_set_absolute b tim chan v s = Inl ShiftOutOfRange"
    using t g sh by (simp add: timer_set_absolute_def flags_set_def exec.simps)
  have p: "timer_set_periodic b tim chan v fl s = Inl ShiftOutOfRange"
    using t g sh w by (simp add: timer_set_periodic_def flags_set_def reg_write_def exec.simps)
  have c: "timer_clear b tim chan s = Inl ShiftOutOfRange"
    using t g sh by (simp add: timer_clear_def inten_write_def exec.simps)
  show ?thesis using g a p c by simp
qed

text \<open>C10 at the example board, for channel \<open>-1\<close> of instance 0.\<close>

theorem C10_negative_channel_not_rejected_witness:
  "wf_sys demo_board demo_sys \<and> valid_tim demo_board 0 \<and> (- 1 :: int) < 0 \<and>
   timer_set_absolute demo_board 0 (- 1) 5 demo_sys = Inl ShiftOutOfRange \<and>
   timer_set_periodic demo_board 0 (- 1) 5 0 demo_sys = Inl ShiftOutOfRange \<and>
   timer_clear demo_board 0 (- 1) demo_sys = Inl ShiftOutOfRange"
proof -
  have h: "wf_sys demo_board demo_sys" "valid_tim demo_board 0" "(- 1 :: int) < 0"
    by (simp_all add: wf_demo valid_tim_def demo_simps)
  from C10_negative_channel_not_rejected [OF h] h show ?thesis by simp
qed

end
